theory Spec2Isabelle
  imports Complex_Main "HOL-Library.Log_Nat"
begin

section \<open>Python numbers\<close>

text \<open>
  The image code mixes Python integers (unbounded, modelled by \<open>int\<close>) with Python floats
  (IEEE 754 binary64).  A finite float is modelled by the rational number it denotes; every
  float operation is the exact rational operation followed by \<open>binary64\<close>, rounding to the
  nearest double with ties to the even significand.  A result whose magnitude reaches
  \<open>float_limit\<close> stands for an infinity; the only consumer of possibly infinite values in the
  source is \<open>int(...)\<close>, which raises OverflowError on them.
\<close>

definition round_half_even :: "rat \<Rightarrow> int" where
  "round_half_even x =
     (let f = \<lfloor>x\<rfloor>; d = x - of_int f
      in if d < 1 / 2 then f else if 1 / 2 < d then f + 1 else if even f then f else f + 1)"

text \<open>The binary exponent of a positive rational: \<open>2 powi ilog2 x \<le> x < 2 powi (ilog2 x + 1)\<close>.\<close>

definition ilog2 :: "rat \<Rightarrow> int" where
  "ilog2 x = (if 1 \<le> x then bitlen \<lfloor>x\<rfloor> - 1 else - bitlen (\<lceil>1 / x\<rceil> - 1))"

text \<open>
  Rounding to binary64: 53 significant bits, the exponent clamped below at \<open>- 1022\<close>
  (subnormal numbers share the quantum \<open>2 powi (- 1074)\<close>).
\<close>

definition binary64 :: "rat \<Rightarrow> rat" where
  "binary64 x =
     (if x = 0 then 0
      else let e = max (ilog2 \<bar>x\<bar>) (- 1022); q = 2 powi (e - 52)
           in sgn x * of_int (round_half_even (\<bar>x\<bar> / q)) * q)"

definition float_limit :: rat where
  "float_limit = 2 ^ 1024"

datatype pyerr = ZeroDivisionError | OverflowError | ValueError | TypeError | IOError | LibraryError

text \<open>\<open>a / b\<close> on two Python integers (true division, correctly rounded).\<close>

definition py_truediv :: "int \<Rightarrow> int \<Rightarrow> pyerr + rat" where
  "py_truediv a b =
     (if b = 0 then Inl ZeroDivisionError
      else let r = binary64 (of_int a / of_int b)
           in if float_limit \<le> \<bar>r\<bar> then Inl OverflowError else Inr r)"

text \<open>The implicit conversion of an integer operand of a mixed operation.\<close>

definition float_of_int :: "int \<Rightarrow> pyerr + rat" where
  "float_of_int n =
     (let r = binary64 (of_int n) in if float_limit \<le> \<bar>r\<bar> then Inl OverflowError else Inr r)"

text \<open>\<open>n * x\<close> for an integer \<open>n\<close> and a float \<open>x\<close>.\<close>

definition int_times_float :: "int \<Rightarrow> rat \<Rightarrow> pyerr + rat" where
  "int_times_float n x =
     (case float_of_int n of Inl e \<Rightarrow> Inl e | Inr f \<Rightarrow> Inr (binary64 (f * x)))"

text \<open>\<open>int(x)\<close> on a float: truncation toward zero.\<close>

definition py_int :: "rat \<Rightarrow> pyerr + int" where
  "py_int x =
     (if float_limit \<le> \<bar>x\<bar> then Inl OverflowError
      else Inr (if 0 \<le> x then \<lfloor>x\<rfloor> else \<lceil>x\<rceil>))"

text \<open>\<open>int(n * x)\<close>, the shape of both height computations of \<open>create_thumbnail\<close>.\<close>

definition int_of_product :: "int \<Rightarrow> rat \<Rightarrow> pyerr + int" where
  "int_of_product n x = (case int_times_float n x of Inl e \<Rightarrow> Inl e | Inr p \<Rightarrow> py_int p)"


section \<open>Images, encoded buffers and the imaging library\<close>

text \<open>
  A Pillow image is its mode string, its size (width, height) and its pixel values; a pixel is
  the list of its band values and only the coordinates inside the size are meaningful.
\<close>

type_synonym pixel = "nat list"
type_synonym raster = "int \<Rightarrow> int \<Rightarrow> pixel"

record image =
  im_mode :: string
  im_size :: "int \<times> int"
  im_px :: raster

text \<open>
  A Python \<open>bytes\<close> value as the image code produces it: the empty string, or a JPEG stream,
  given by the frame size its header declares and by its entropy-coded scan data.
\<close>

datatype bytes = Empty_bytes | Jpeg_bytes "int \<times> int" "nat list"

text \<open>Decoding a buffer recovers the declared frame size; the empty buffer does not decode.\<close>

fun decoded_size :: "bytes \<Rightarrow> (int \<times> int) option" where
  "decoded_size Empty_bytes = None"
| "decoded_size (Jpeg_bytes s d) = Some s"

text \<open>
  The arguments \<open>img2pdf.get_layout_fun\<close> is called with (\<open>pagesize\<close>, \<open>fit\<close>, \<open>border\<close>, each
  possibly \<open>None\<close>) stand for the layout function it returns.
\<close>

datatype fit_mode = into | fill | exact | shrink | enlarge

datatype layout = Layout "(rat \<times> rat) option" "fit_mode option" "(rat \<times> rat \<times> rat \<times> rat) option"

text \<open>
  The numerical kernels of Pillow and img2pdf are parameters of the model.  Each may raise
  (\<open>Inl\<close>); when it does not, it supplies pixel values or scan data only: the mode and size
  of every result are fixed by the operations defined below, as the libraries document them.
\<close>

record libs =
  resample :: "image \<Rightarrow> int \<times> int \<Rightarrow> pyerr + raster"
  recolour :: "image \<Rightarrow> string \<Rightarrow> pyerr + raster"
  last_band :: "image \<Rightarrow> pyerr + raster"
  composite :: "image \<Rightarrow> image \<Rightarrow> image option \<Rightarrow> pyerr + raster"
  jpeg_scan :: "image \<Rightarrow> int \<Rightarrow> pyerr + nat list"
  pdf_refuses :: "bytes list \<Rightarrow> layout \<Rightarrow> pyerr option"

text \<open>\<open>Image.new(mode, size, color)\<close>.\<close>

definition Image_new :: "string \<Rightarrow> int \<times> int \<Rightarrow> pixel \<Rightarrow> image" where
  "Image_new m sz color = \<lparr>im_mode = m, im_size = sz, im_px = (\<lambda>x y. color)\<rparr>"

text \<open>\<open>img.resize(size, Image.Resampling.LANCZOS)\<close>: the requested size, the same mode.\<close>

definition resize :: "libs \<Rightarrow> image \<Rightarrow> int \<times> int \<Rightarrow> pyerr + image" where
  "resize L img sz =
     (case resample L img sz of Inl e \<Rightarrow> Inl e
      | Inr px \<Rightarrow> Inr \<lparr>im_mode = im_mode img, im_size = sz, im_px = px\<rparr>)"

text \<open>
  \<open>img.crop((left, upper, right, lower))\<close>: the pixels of the box, those outside the source
  zero-filled; a box whose right or lower edge precedes the left or upper one is rejected.
\<close>

definition crop :: "image \<Rightarrow> int \<times> int \<times> int \<times> int \<Rightarrow> pyerr + image" where
  "crop img box =
     (case box of (left, upper, right, lower) \<Rightarrow>
        if right < left \<or> lower < upper then Inl ValueError
        else Inr \<lparr>im_mode = im_mode img, im_size = (right - left, lower - upper),
               im_px = (\<lambda>x y.
                 if 0 \<le> x + left \<and> x + left < fst (im_size img)
                    \<and> 0 \<le> y + upper \<and> y + upper < snd (im_size img)
                 then im_px img (x + left) (y + upper)
                 else map (\<lambda>v. 0) (im_px img 0 0))\<rparr>)"

text \<open>\<open>img.convert(mode)\<close>: the requested mode, the same size.\<close>

definition convert :: "libs \<Rightarrow> image \<Rightarrow> string \<Rightarrow> pyerr + image" where
  "convert L img m =
     (case recolour L img m of Inl e \<Rightarrow> Inl e
      | Inr px \<Rightarrow> Inr \<lparr>im_mode = m, im_size = im_size img, im_px = px\<rparr>)"

text \<open>\<open>img.split()[-1]\<close>: the last band as a single-band image of the same size.\<close>

definition split_last :: "libs \<Rightarrow> image \<Rightarrow> pyerr + image" where
  "split_last L img =
     (case last_band L img of Inl e \<Rightarrow> Inl e
      | Inr px \<Rightarrow> Inr \<lparr>im_mode = ''L'', im_size = im_size img, im_px = px\<rparr>)"

text \<open>
  \<open>background.paste(img, mask=m)\<close> updates the destination in place; the updated destination,
  which keeps its mode and size, is returned.
\<close>

definition paste :: "libs \<Rightarrow> image \<Rightarrow> image \<Rightarrow> image option \<Rightarrow> pyerr + image" where
  "paste L background img alpha_mask =
     (case composite L background img alpha_mask of Inl e \<Rightarrow> Inl e
      | Inr px \<Rightarrow> Inr (background\<lparr>im_px := px\<rparr>))"

text \<open>\<open>img.save(buffer, format='JPEG', quality=q, optimize=True); buffer.getvalue()\<close>.\<close>

definition save_jpeg :: "libs \<Rightarrow> image \<Rightarrow> int \<Rightarrow> pyerr + bytes" where
  "save_jpeg L img q =
     (case jpeg_scan L img q of Inl e \<Rightarrow> Inl e | Inr d \<Rightarrow> Inr (Jpeg_bytes (im_size img) d))"


section \<open>The world: input files, output files, observed calls\<close>

record page =
  page_image :: bytes
  page_layout :: layout

type_synonym pdf = "page list"

text \<open>
  The two status texts built in the loop and after it, the completion text and the failure
  text (which quotes the exception) are kept apart by a constructor each.
\<close>

datatype message = Processing_page int int | Generating_pdf | Finished | Failed pyerr

text \<open>
  The log records, in order, the calls the registered progress callback receives and the calls
  of \<open>ImageProcessor.compress_image\<close> made by the generator.
\<close>

datatype action = Progress int int message | Compress string

record world =
  images :: "string \<Rightarrow> image option"
  writable :: "string \<Rightarrow> bool"
  written :: "string \<Rightarrow> pdf option"
  log :: "action list"

text \<open>\<open>Image.open(filepath)\<close>: the file decodes to an image, or the call raises.\<close>

definition Image_open :: "world \<Rightarrow> string \<Rightarrow> pyerr + image" where
  "Image_open w filepath = (case images w filepath of None \<Rightarrow> Inl IOError | Some img \<Rightarrow> Inr img)"

text \<open>\<open>with open(output_path, 'wb') as f: f.write(pdf_bytes)\<close>.\<close>

definition write_file :: "string \<Rightarrow> pdf \<Rightarrow> world \<Rightarrow> pyerr + world" where
  "write_file output_path pdf_bytes w =
     (if writable w output_path then Inr (w\<lparr>written := (written w)(output_path \<mapsto> pdf_bytes)\<rparr>)
      else Inl IOError)"


section \<open>core/image_processor.py\<close>

text \<open>
  The colour-mode block that \<open>load_image\<close> (lines 18 to 25), \<open>create_thumbnail\<close> (lines 73 to
  80) and \<open>compress_image\<close> (lines 95 to 102) each contain verbatim.
\<close>

definition convert_to_rgb :: "libs \<Rightarrow> image \<Rightarrow> pyerr + image" where
  "convert_to_rgb L img =
     (if im_mode img \<in> set [''RGBA'', ''P'', ''LA''] then
        let background = Image_new ''RGB'' (im_size img) [255, 255, 255]
        in (case (if im_mode img = ''P'' then convert L img ''RGBA'' else Inr img) of
              Inl e \<Rightarrow> Inl e
            | Inr img1 \<Rightarrow>
                (case (if CHR ''A'' \<in> set (im_mode img1)
                       then (case split_last L img1 of Inl e \<Rightarrow> Inl e | Inr a \<Rightarrow> Inr (Some a))
                       else Inr None) of
                   Inl e \<Rightarrow> Inl e
                 | Inr alpha_mask \<Rightarrow> paste L background img1 alpha_mask))
      else if im_mode img \<noteq> ''RGB'' then convert L img ''RGB''
      else Inr img)"


definition get_image_dimensions :: "world \<Rightarrow> string \<Rightarrow> int \<times> int" where
  "get_image_dimensions w filepath =
     (case Image_open w filepath of Inl e \<Rightarrow> (0, 0) | Inr img \<Rightarrow> im_size img)"

text \<open>\<open>scale = target_w / orig_w; target_h = int(orig_h * scale)\<close>.\<close>

definition target_height :: "int \<Rightarrow> int \<Rightarrow> int \<Rightarrow> pyerr + int" where
  "target_height target_w orig_w orig_h =
     (case py_truediv target_w orig_w of Inl e \<Rightarrow> Inl e
      | Inr scale \<Rightarrow> int_of_product orig_h scale)"

text \<open>\<open>max_h = int(target_w * 1.6)\<close>; the literal denotes the double nearest to 1.6.\<close>

definition max_height :: "int \<Rightarrow> pyerr + int" where
  "max_height target_w = int_of_product target_w (binary64 (16 / 10))"

text \<open>The resize, with the crop of the top region when the scaled image is too tall.\<close>

definition scale_and_crop :: "libs \<Rightarrow> image \<Rightarrow> int \<Rightarrow> int \<Rightarrow> int \<Rightarrow> pyerr + image" where
  "scale_and_crop L img target_w target_h max_h =
     (if target_h > max_h then
        (case resize L img (target_w, target_h) of Inl e \<Rightarrow> Inl e
         | Inr img1 \<Rightarrow> crop img1 (0, 0, target_w, max_h))
      else resize L img (target_w, target_h))"

text \<open>The body of the \<open>try\<close> block of \<open>create_thumbnail\<close>.\<close>

definition thumbnail_try :: "libs \<Rightarrow> world \<Rightarrow> string \<Rightarrow> int \<Rightarrow> pyerr + bytes" where
  "thumbnail_try L w filepath max_width =
     (case Image_open w filepath of Inl e \<Rightarrow> Inl e
      | Inr img \<Rightarrow>
          (case im_size img of (orig_w, orig_h) \<Rightarrow>
             let target_w = max_width
             in (case target_height target_w orig_w orig_h of Inl e \<Rightarrow> Inl e
                 | Inr target_h \<Rightarrow>
                     (case max_height target_w of Inl e \<Rightarrow> Inl e
                      | Inr max_h \<Rightarrow>
                          (case scale_and_crop L img target_w target_h max_h of Inl e \<Rightarrow> Inl e
                           | Inr img1 \<Rightarrow>
                               (case convert_to_rgb L img1 of Inl e \<Rightarrow> Inl e
                                | Inr img2 \<Rightarrow> save_jpeg L img2 90))))))"

text \<open>Any exception is printed and turned into \<open>None\<close>.\<close>

definition create_thumbnail :: "libs \<Rightarrow> world \<Rightarrow> string \<Rightarrow> int \<Rightarrow> bytes option" where
  "create_thumbnail L w filepath max_width =
     (case thumbnail_try L w filepath max_width of Inl e \<Rightarrow> None | Inr b \<Rightarrow> Some b)"

text \<open>Any exception is printed and turned into the empty buffer.\<close>

definition compress_image :: "libs \<Rightarrow> world \<Rightarrow> string \<Rightarrow> int \<Rightarrow> bytes" where
  "compress_image L w filepath quality =
     (case (case Image_open w filepath of Inl e \<Rightarrow> Inl e
            | Inr img \<Rightarrow>
                (case convert_to_rgb L img of Inl e \<Rightarrow> Inl e
                 | Inr rgb \<Rightarrow> save_jpeg L rgb quality)) of
        Inl e \<Rightarrow> Empty_bytes
      | Inr b \<Rightarrow> b)"


section \<open>core/pdf_generator.py\<close>

text \<open>
  The generator object holds the optional progress callback; the field says whether one has
  been registered.  The callback is taken not to raise, and what the functions print on the
  console is left out.
\<close>

record pdf_generator =
  progress_callback :: bool

definition set_progress_callback :: "pdf_generator \<Rightarrow> pdf_generator" where
  "set_progress_callback g = g\<lparr>progress_callback := True\<rparr>"

definition report_progress :: "pdf_generator \<Rightarrow> int \<Rightarrow> int \<Rightarrow> message \<Rightarrow> world \<Rightarrow> world" where
  "report_progress g current total_n msg w =
     (if progress_callback g then w\<lparr>log := log w @ [Progress current total_n msg]\<rparr> else w)"

text \<open>The class constant: a dictionary whose value for \<open>original\<close> is Python's \<open>None\<close>.\<close>

definition PAGE_SIZES :: "string \<Rightarrow> (rat \<times> rat) option option" where
  "PAGE_SIZES =
     [''original'' \<mapsto> None,
      ''a4'' \<mapsto> Some (210, 297),
      ''letter'' \<mapsto> Some (binary64 (2159 / 10), binary64 (2794 / 10))]"

text \<open>\<open>img2pdf.mm_to_pt(length)\<close>, which the library defines as \<open>(72.0 * length) / 25.4\<close>.\<close>

definition mm_to_pt :: "rat \<Rightarrow> rat" where
  "mm_to_pt len = binary64 (binary64 (72 * len) / binary64 (254 / 10))"

text \<open>
  Lines 78 to 101: the layout function.  The three products with the literal 2.834645669 are
  bound to local names that nothing reads afterwards.
\<close>

definition layout_fun :: "string \<Rightarrow> rat \<Rightarrow> pyerr + layout" where
  "layout_fun page_size margin_mm =
     (if page_size = ''original'' then Inr (Layout None None None)
      else
        (case (case PAGE_SIZES page_size of None \<Rightarrow> Some (210, 297) | Some v \<Rightarrow> v) of
           None \<Rightarrow> Inl TypeError
         | Some page_dim \<Rightarrow>
             let page_width_pt = binary64 (fst page_dim * binary64 (2834645669 / 1000000000));
                 page_height_pt = binary64 (snd page_dim * binary64 (2834645669 / 1000000000));
                 margin_pt = binary64 (margin_mm * binary64 (2834645669 / 1000000000))
             in Inr (Layout (Some (mm_to_pt (fst page_dim), mm_to_pt (snd page_dim)))
                       (Some into)
                       (Some (mm_to_pt margin_mm, mm_to_pt margin_mm,
                              mm_to_pt margin_mm, mm_to_pt margin_mm)))))"

text \<open>
  \<open>img2pdf.convert(processed_images, layout_fun=layout_fun)\<close>: unless the library raises, one
  page per buffer, in the order of the list, each laid out by the layout function.
\<close>

definition img2pdf_convert :: "libs \<Rightarrow> bytes list \<Rightarrow> layout \<Rightarrow> pyerr + pdf" where
  "img2pdf_convert L processed_images lf =
     (case pdf_refuses L processed_images lf of
        Some e \<Rightarrow> Inl e
      | None \<Rightarrow> Inr (map (\<lambda>b. \<lparr>page_image = b, page_layout = lf\<rparr>) processed_images))"

text \<open>
  The loop over \<open>enumerate(image_paths)\<close>, from index \<open>i\<close> on: report, compress, keep the
  buffer when it is not empty.
\<close>

fun compress_loop ::
  "libs \<Rightarrow> pdf_generator \<Rightarrow> int \<Rightarrow> int \<Rightarrow> int \<Rightarrow> string list \<Rightarrow> bytes list \<Rightarrow> world
    \<Rightarrow> bytes list \<times> world" where
  "compress_loop L g quality total_n i [] processed_images w = (processed_images, w)"
| "compress_loop L g quality total_n i (img_path # rest) processed_images w =
     (let w1 = report_progress g (i + 1) total_n (Processing_page (i + 1) total_n) w;
          img_data = compress_image L w1 img_path quality;
          w2 = w1\<lparr>log := log w1 @ [Compress img_path]\<rparr>
      in compress_loop L g quality total_n (i + 1) rest
           (if img_data \<noteq> Empty_bytes then processed_images @ [img_data] else processed_images)
           w2)"

text \<open>
  The body of the \<open>try\<close> block of \<open>generate_pdf\<close>: the value returned, or the exception raised
  together with the world at that moment.
\<close>

definition generate_pdf_try ::
  "libs \<Rightarrow> pdf_generator \<Rightarrow> string list \<Rightarrow> string \<Rightarrow> string \<Rightarrow> int \<Rightarrow> rat \<Rightarrow> world
    \<Rightarrow> (pyerr \<times> world) + (bool \<times> world)" where
  "generate_pdf_try L g image_paths output_path page_size quality margin_mm w =
     (let total_n = int (length image_paths)
      in (case compress_loop L g quality total_n 0 image_paths [] w of
            (processed_images, w1) \<Rightarrow>
              if processed_images = [] then Inr (False, w1)
              else
                let w2 = report_progress g total_n total_n Generating_pdf w1
                in (case layout_fun page_size margin_mm of
                      Inl e \<Rightarrow> Inl (e, w2)
                    | Inr lf \<Rightarrow>
                        (case img2pdf_convert L processed_images lf of
                           Inl e \<Rightarrow> Inl (e, w2)
                         | Inr pdf_bytes \<Rightarrow>
                             (case write_file output_path pdf_bytes w2 of
                                Inl e \<Rightarrow> Inl (e, w2)
                              | Inr w3 \<Rightarrow>
                                  Inr (True, report_progress g total_n total_n Finished w3))))))"

definition generate_pdf ::
  "libs \<Rightarrow> pdf_generator \<Rightarrow> string list \<Rightarrow> string \<Rightarrow> string \<Rightarrow> int \<Rightarrow> rat \<Rightarrow> world
    \<Rightarrow> bool \<times> world" where
  "generate_pdf L g image_paths output_path page_size quality margin_mm w =
     (if image_paths = [] then (False, w)
      else
        (case generate_pdf_try L g image_paths output_path page_size quality margin_mm w of
           Inr r \<Rightarrow> r
         | Inl (e, w1) \<Rightarrow> (False, report_progress g 0 0 (Failed e) w1)))"


section \<open>The placement of an image on a fixed page\<close>

text \<open>
  Modelled from the spec: the layout function that img2pdf builds for a fixed page size with
  \<open>FitMode.into\<close> is not under src/.  The spec (4.2, step 4) has the image "scaled to fit
  inside the page inset by marginLengthUnits on all four sides, preserving aspect ratio,
  centered, never cropped, never upscaled beyond fit": the whole image at the largest scale at
  which it stays inside the inset page, placed in the middle of the page.  The result is the
  rectangle of the image on the page, in points: left, bottom, width, height.
\<close>

definition fit_into ::
  "rat \<times> rat \<Rightarrow> rat \<times> rat \<times> rat \<times> rat \<Rightarrow> int \<times> int \<Rightarrow> rat \<times> rat \<times> rat \<times> rat" where
  "fit_into page_pt border_pt size_px =
     (case page_pt of (page_w, page_h) \<Rightarrow>
      case border_pt of (b_top, b_right, b_bottom, b_left) \<Rightarrow>
      case size_px of (img_w, img_h) \<Rightarrow>
        let box_w = page_w - b_left - b_right;
            box_h = page_h - b_top - b_bottom;
            scale = min (box_w / of_int img_w) (box_h / of_int img_h);
            w = scale * of_int img_w;
            h = scale * of_int img_h
        in ((page_w - w) / 2, (page_h - h) / 2, w, h))"

text \<open>
  Modelled from the spec: the rectangle at which a page of the document shows its image, for a
  page laid out with a fixed page size, \<open>FitMode.into\<close> and a border.
\<close>

definition placed_image :: "page \<Rightarrow> (rat \<times> rat \<times> rat \<times> rat) option" where
  "placed_image pg =
     (case page_layout pg of
        Layout (Some page_pt) (Some into) (Some border_pt) \<Rightarrow>
          (case decoded_size (page_image pg) of
             Some size_px \<Rightarrow> Some (fit_into page_pt border_pt size_px)
           | None \<Rightarrow> None)
      | _ \<Rightarrow> None)"


section \<open>What the observer sees\<close>

text \<open>The completed counts of the progress calls in a log, in order.\<close>

fun progress_counts :: "action list \<Rightarrow> int list" where
  "progress_counts [] = []"
| "progress_counts (Progress c t m # as) = c # progress_counts as"
| "progress_counts (Compress p # as) = progress_counts as"



section \<open>Instances for evaluation\<close>

text \<open>
  A library instance for running the functions on concrete files.  It raises where Pillow
  does on the sizes used here: a resize to a side below 1 is a ValueError, and the JPEG
  encoder rejects an empty image and a side above 65500.  Everywhere else it succeeds, with
  nearest-neighbour resampling, a colour conversion that keeps the pixel values, the last band
  as alpha, a paste that copies the source, and an empty scan.
\<close>

definition simple_libs :: libs where
  "simple_libs =
     \<lparr>resample = (\<lambda>img sz.
          if fst sz < 1 \<or> snd sz < 1 then Inl ValueError
          else Inr (\<lambda>x y.
            im_px img (x * fst (im_size img) div fst sz) (y * snd (im_size img) div snd sz))),
      recolour = (\<lambda>img m. Inr (im_px img)),
      last_band = (\<lambda>img. Inr (\<lambda>x y. [last (im_px img x y)])),
      composite = (\<lambda>background img alpha_mask. Inr (im_px img)),
      jpeg_scan = (\<lambda>img q.
          if fst (im_size img) < 1 \<or> snd (im_size img) < 1 then Inl ValueError
          else if 65500 < fst (im_size img) \<or> 65500 < snd (im_size img) then Inl IOError
          else Inr []),
      pdf_refuses = (\<lambda>bs lf. None)\<rparr>"

text \<open>An image of one flat colour.\<close>

definition flat_image :: "string \<Rightarrow> int \<Rightarrow> int \<Rightarrow> image" where
  "flat_image m width height = \<lparr>im_mode = m, im_size = (width, height), im_px = (\<lambda>x y. [7, 7, 7])\<rparr>"

text \<open>
  A directory with seven decodable files and a writable output path; every other path fails
  to open.
\<close>

definition shelf :: world where
  "shelf =
     \<lparr>images = [''page.png'' \<mapsto> flat_image ''RGB'' 7 10,
                ''strip.png'' \<mapsto> flat_image ''RGBA'' 800 20000,
                ''cover.gif'' \<mapsto> flat_image ''P'' 640 480,
                ''scan.jpg'' \<mapsto> flat_image ''L'' 1000 1600,
                ''wide.bmp'' \<mapsto> flat_image ''RGB'' 1000 1601,
                ''banner.png'' \<mapsto> flat_image ''RGB'' 2000 10,
                ''tall.png'' \<mapsto> flat_image ''RGB'' 1 70000],
      writable = (\<lambda>p. p = ''out.pdf''),
      written = Map.empty,
      log = []\<rparr>"

definition observed :: pdf_generator where
  "observed = \<lparr>progress_callback = True\<rparr>"


section \<open>Rounding to binary64\<close>

lemma round_half_even_lower: "x - 1 / 2 \<le> of_int (round_half_even x)"
  unfolding round_half_even_def Let_def by (auto; linarith)

lemma round_half_even_upper: "of_int (round_half_even x) \<le> x + 1 / 2"
  unfolding round_half_even_def Let_def by (auto; linarith)

lemma round_half_even_ge_int: "of_int m \<le> x \<Longrightarrow> m \<le> round_half_even x"
  unfolding round_half_even_def Let_def by (auto simp: le_floor_iff; linarith)

lemma round_half_even_le_int: "x \<le> of_int m \<Longrightarrow> round_half_even x \<le> m"
  unfolding round_half_even_def Let_def
  by (auto simp: le_floor_iff; linarith)

lemma ilog2_ge1:
  assumes "1 \<le> (x::rat)"
  shows "2 powi (ilog2 x) \<le> x \<and> x < 2 powi (ilog2 x + 1)"
proof -
  define n where "n = \<lfloor>x\<rfloor>"
  have n1: "1 \<le> n" using assms by (simp add: n_def le_floor_iff)
  then have n0: "0 < n" by simp
  have b1: "1 \<le> bitlen n" using n0 bitlen_eq_zero_iff [of n] bitlen_nonneg [of n] by linarith
  have e: "ilog2 x = bitlen n - 1" using assms by (simp add: ilog2_def n_def)
  from bitlen_bounds [OF n0]
  have lo: "(2::int) ^ nat (bitlen n - 1) \<le> n" and hi: "n < 2 ^ nat (bitlen n)" by auto
  have "rat_of_int (2 ^ nat (bitlen n - 1)) \<le> of_int n" using lo by (simp only: of_int_le_iff)
  also have "\<dots> \<le> x" by (simp add: n_def)
  finally have A: "2 powi (bitlen n - 1) \<le> x" using b1 by (simp add: power_int_def)
  have "n + 1 \<le> 2 ^ nat (bitlen n)" using hi by simp
  then have "rat_of_int (n + 1) \<le> of_int (2 ^ nat (bitlen n))" by (simp only: of_int_le_iff)
  moreover have "x < of_int (n + 1)" unfolding n_def by linarith
  ultimately have "x < of_int (2 ^ nat (bitlen n))" by linarith
  then have B: "x < 2 powi (bitlen n)" using b1 by (simp add: power_int_def)
  show ?thesis using A B e by simp
qed

lemma ilog2_lt1:
  assumes "0 < (x::rat)" "x < 1"
  shows "2 powi (ilog2 x) \<le> x \<and> x < 2 powi (ilog2 x + 1)"
proof -
  define y where "y = 1 / x"
  define m where "m = \<lceil>y\<rceil>"
  define k where "k = bitlen (m - 1)"
  have y1: "1 < y" using assms by (simp add: y_def)
  have ypos: "0 < y" using y1 by simp
  have xy: "x = 1 / y" using assms by (simp add: y_def)
  have m2: "2 \<le> m" using y1 unfolding m_def by linarith
  then have m0: "0 < m - 1" by simp
  have k1: "1 \<le> k" using m0 bitlen_eq_zero_iff [of "m - 1"] bitlen_nonneg [of "m - 1"]
    unfolding k_def by linarith
  have e: "ilog2 x = - k" using assms by (simp add: ilog2_def k_def m_def y_def)
  from bitlen_bounds [OF m0]
  have lo: "(2::int) ^ nat (k - 1) \<le> m - 1" and hi: "m - 1 < 2 ^ nat k" by (auto simp: k_def)
  have "m \<le> 2 ^ nat k" using hi by simp
  then have "rat_of_int m \<le> of_int (2 ^ nat k)" by (simp only: of_int_le_iff)
  moreover have "y \<le> of_int m" unfolding m_def by linarith
  ultimately have yk: "y \<le> 2 ^ nat k" by (simp only: of_int_power of_int_numeral)
  have "rat_of_int (2 ^ nat (k - 1)) \<le> of_int (m - 1)" using lo by (simp only: of_int_le_iff)
  moreover have "of_int (m - 1) < y" unfolding m_def by linarith
  ultimately have ky: "2 ^ nat (k - 1) < y" by (simp only: of_int_power of_int_numeral)
  have A: "1 / 2 ^ nat k \<le> 1 / y" using yk ypos by (simp add: frac_le)
  have B: "1 / y < 1 / 2 ^ nat (k - 1)" using ky by (simp add: frac_less2)
  have pk: "(2::rat) powi (- k) = 1 / 2 ^ nat k" using k1 by (simp add: power_int_def field_simps)
  have pk1: "(2::rat) powi (- k + 1) = 1 / 2 ^ nat (k - 1)"
    using k1 by (cases "k = 1") (simp_all add: power_int_def field_simps)
  show ?thesis using A B e xy pk pk1 by simp
qed

lemma ilog2_bounds:
  assumes "0 < (x::rat)"
  shows "2 powi (ilog2 x) \<le> x" and "x < 2 powi (ilog2 x + 1)"
  using assms ilog2_ge1 [of x] ilog2_lt1 [of x] by (cases "1 \<le> x"; simp)+

lemma pow2_exp_less: "(2::rat) powi a < 2 powi b \<Longrightarrow> a < b"
  using power_int_increasing [of b a "2::rat"] by (cases "a < b") auto

lemma ilog2_ge: "0 < x \<Longrightarrow> 2 powi k \<le> x \<Longrightarrow> k \<le> ilog2 x"
  using ilog2_bounds(2) [of x] pow2_exp_less [of k "ilog2 x + 1"] by simp

lemma ilog2_less: "0 < x \<Longrightarrow> x < 2 powi k \<Longrightarrow> ilog2 x < k"
  using ilog2_bounds(1) [of x] pow2_exp_less [of "ilog2 x" k] by simp

lemma binary64_pos:
  "0 < x \<Longrightarrow> binary64 x = of_int (round_half_even (x / 2 powi (max (ilog2 x) (- 1022) - 52)))
      * 2 powi (max (ilog2 x) (- 1022) - 52)"
  by (simp add: binary64_def Let_def)

lemma binary64_nonneg: "0 \<le> x \<Longrightarrow> 0 \<le> binary64 x"
proof (cases "x = 0")
  case True then show ?thesis by (simp add: binary64_def)
next
  case False
  assume "0 \<le> x"
  with False have x: "0 < x" by simp
  let ?q = "(2::rat) powi (max (ilog2 x) (- 1022) - 52)"
  have "rat_of_int 0 \<le> x / ?q" using x by simp
  then have "0 \<le> round_half_even (x / ?q)" by (rule round_half_even_ge_int)
  then show ?thesis using x by (simp add: binary64_pos)
qed

lemma binary64_error:
  assumes x: "0 < x" and n: "2 powi (- 1022) \<le> x"
  shows "\<bar>binary64 x - x\<bar> \<le> x / 2 ^ 53"
proof -
  define e where "e = ilog2 x"
  define q where "q = (2::rat) powi (e - 52)"
  have e: "- 1022 \<le> e" unfolding e_def using ilog2_ge [OF x n] .
  have q0: "0 < q" by (simp add: q_def)
  have unf: "binary64 x = of_int (round_half_even (x / q)) * q"
    using x e by (simp add: binary64_pos q_def e_def max_def)
  define r where "r = rat_of_int (round_half_even (x / q))"
  have r: "\<bar>r - x / q\<bar> \<le> 1 / 2"
    unfolding r_def using round_half_even_lower [of "x / q"] round_half_even_upper [of "x / q"] by linarith
  have "binary64 x - x = (r - x / q) * q"
    using q0 by (simp add: unf r_def left_diff_distrib)
  then have "\<bar>binary64 x - x\<bar> = \<bar>r - x / q\<bar> * \<bar>q\<bar>"
    by (simp only: abs_mult)
  also have "\<dots> = \<bar>r - x / q\<bar> * q" using q0 by (simp only: abs_of_pos)
  also have "\<dots> \<le> 1 / 2 * q" using r q0 by (intro mult_right_mono) simp_all
  finally have A: "\<bar>binary64 x - x\<bar> \<le> q / 2" by simp
  have "q = 2 powi e / 2 ^ 52"
    unfolding q_def by (subst power_int_diff) simp_all
  then have "q / 2 = 2 powi e / 2 ^ 53" by simp
  also have "\<dots> \<le> x / 2 ^ 53"
    using ilog2_bounds(1) [OF x] by (simp add: e_def divide_right_mono)
  finally show ?thesis using A by linarith
qed

lemma pow2_neg: "j \<le> 0 \<Longrightarrow> (2::rat) powi j = 1 / 2 ^ nat (- j)"
  by (simp add: power_int_def field_simps)

lemma binary64_small_quantum:
  assumes x: "0 < x" and e: "max (ilog2 x) (- 1022) \<le> 52"
  shows "binary64 x = of_int (round_half_even (x * 2 ^ nat (52 - max (ilog2 x) (- 1022))))
                  / 2 ^ nat (52 - max (ilog2 x) (- 1022))"
proof -
  have "(2::rat) powi (max (ilog2 x) (- 1022) - 52) = 1 / 2 ^ nat (52 - max (ilog2 x) (- 1022))"
    using e pow2_neg [of "max (ilog2 x) (- 1022) - 52"] by simp
  then show ?thesis using x by (simp only: binary64_pos) simp
qed

lemma binary64_le_int:
  assumes x: "0 < x" and nx: "x \<le> of_int n" and nb: "n < 2 ^ 53"
  shows "binary64 x \<le> of_int n"
proof -
  define k where "k = nat (52 - max (ilog2 x) (- 1022))"
  have "rat_of_int n < of_int (2 ^ 53)" using nb by (simp only: of_int_less_iff)
  then have "x < 2 powi 53" using nx by simp
  then have "ilog2 x < 53" using ilog2_less [OF x] by simp
  then have e: "max (ilog2 x) (- 1022) \<le> 52" by simp
  have unf: "binary64 x = of_int (round_half_even (x * 2 ^ k)) / 2 ^ k"
    unfolding k_def using binary64_small_quantum [OF x e] .
  have "x * 2 ^ k \<le> of_int n * 2 ^ k" using nx by simp
  then have "x * 2 ^ k \<le> of_int (n * 2 ^ k)" by simp
  then have "round_half_even (x * 2 ^ k) \<le> n * 2 ^ k" by (rule round_half_even_le_int)
  then have "rat_of_int (round_half_even (x * 2 ^ k)) \<le> of_int (n * 2 ^ k)"
    by (simp only: of_int_le_iff)
  then have "rat_of_int (round_half_even (x * 2 ^ k)) / 2 ^ k \<le> of_int n"
    by (simp add: field_simps)
  then show ?thesis by (simp only: unf)
qed

lemma binary64_ge_int:
  assumes x: "0 < x" and nx: "of_int n \<le> x" and nb: "n \<le> 2 ^ 53"
  shows "of_int n \<le> binary64 x"
proof (cases "n \<le> 0")
  case True
  have "rat_of_int n \<le> 0" using True by simp
  then show ?thesis using binary64_nonneg [of x] x by linarith
next
  case False
  then have "1 \<le> x" using nx by (smt (verit) of_int_le_iff of_int_1 order_trans)
  then have e0: "0 \<le> ilog2 x" using ilog2_ge [OF x, of 0] by simp
  define e where "e = ilog2 x"
  have em: "max (ilog2 x) (- 1022) = e" using e0 by (simp add: e_def)
  show ?thesis
  proof (cases "e \<le> 52")
    case True
    define k where "k = nat (52 - e)"
    have unf: "binary64 x = of_int (round_half_even (x * 2 ^ k)) / 2 ^ k"
      unfolding k_def using binary64_small_quantum [OF x] True em by simp
    have "of_int n * 2 ^ k \<le> x * 2 ^ k" using nx by simp
    then have "of_int (n * 2 ^ k) \<le> x * 2 ^ k" by simp
    then have "n * 2 ^ k \<le> round_half_even (x * 2 ^ k)" by (rule round_half_even_ge_int)
    then have "rat_of_int (n * 2 ^ k) \<le> of_int (round_half_even (x * 2 ^ k))"
      by (simp only: of_int_le_iff)
    then have "of_int n \<le> rat_of_int (round_half_even (x * 2 ^ k)) / 2 ^ k"
      by (simp add: field_simps)
    then show ?thesis by (simp only: unf)
  next
    case False
    define q where "q = (2::rat) powi (e - 52)"
    have q0: "0 < q" by (simp add: q_def)
    have unf: "binary64 x = of_int (round_half_even (x / q)) * q"
      using x by (simp only: binary64_pos em q_def)
    have qe: "q * 2 ^ 52 = 2 powi e"
      unfolding q_def by (subst power_int_diff) simp_all
    have "2 powi e \<le> x" using ilog2_bounds(1) [OF x] by (simp add: e_def)
    then have "q * 2 ^ 52 \<le> x" by (simp only: qe)
    then have "2 ^ 52 \<le> x / q" using q0 by (simp add: field_simps)
    then have "rat_of_int (2 ^ 52) \<le> x / q" by simp
    then have "2 ^ 52 \<le> round_half_even (x / q)" by (rule round_half_even_ge_int)
    then have "rat_of_int (2 ^ 52) \<le> of_int (round_half_even (x / q))"
      by (simp only: of_int_le_iff)
    then have "rat_of_int (2 ^ 52) * q \<le> of_int (round_half_even (x / q)) * q"
      using q0 by (intro mult_right_mono) simp_all
    then have A: "2 powi e \<le> binary64 x" using qe by (simp add: unf mult.commute)
    have "(2::rat) powi 53 \<le> 2 powi e" using False by (intro power_int_increasing) simp_all
    then have B: "(2::rat) ^ 53 \<le> 2 powi e" by simp
    have "rat_of_int n \<le> of_int (2 ^ 53)" using nb by (simp only: of_int_le_iff)
    then have "rat_of_int n \<le> 2 ^ 53" by simp
    then show ?thesis using A B by linarith
  qed
qed

lemma binary64_of_int:
  assumes "0 \<le> n" "n < 2 ^ 53"
  shows "binary64 (of_int n) = of_int n"
proof (cases "n = 0")
  case True then show ?thesis by (simp add: binary64_def)
next
  case False
  then have x: "0 < rat_of_int n" using assms by simp
  have "binary64 (of_int n) \<le> of_int n" using binary64_le_int [OF x _ assms(2)] by simp
  moreover have "of_int n \<le> binary64 (of_int n)" using binary64_ge_int [OF x, of n] assms(2) by simp
  ultimately show ?thesis by simp
qed

lemma below_float_limit: "\<bar>x\<bar> \<le> 2 ^ 64 \<Longrightarrow> \<not> float_limit \<le> \<bar>x\<bar>"
proof -
  assume a: "\<bar>x\<bar> \<le> 2 ^ 64"
  have "(2::rat) ^ 64 < 2 ^ 1024" by (rule power_strict_increasing) simp_all
  then show ?thesis using a unfolding float_limit_def by linarith
qed

section \<open>The two heights of a thumbnail\<close>

lemma literal_1_6: "binary64 (16 / 10) = 8 / 5 + 1 / (5 * 2 ^ 51)"
  by code_simp

lemma normal_ge: "1 / 2 ^ 40 \<le> x \<Longrightarrow> 2 powi (- 1022) \<le> (x::rat)"
proof -
  assume a: "1 / 2 ^ 40 \<le> x"
  have "(2::rat) powi (- 1022) \<le> 2 powi (- 40)" by (intro power_int_increasing) simp_all
  also have "\<dots> = 1 / 2 ^ 40" by (simp add: power_int_minus_divide)
  finally show ?thesis using a by linarith
qed

lemma float_of_small_int:
  assumes "0 \<le> n" "n < 2 ^ 31"
  shows "float_of_int n = Inr (of_int n)"
proof -
  have "n < 2 ^ 53" using assms(2) by simp
  then have f: "binary64 (of_int n) = of_int n" using binary64_of_int assms(1) by simp
  have "rat_of_int n < of_int (2 ^ 31)" using assms(2) by (simp only: of_int_less_iff)
  then have "rat_of_int n < 2 ^ 31" by simp
  moreover have "(2::rat) ^ 31 \<le> 2 ^ 64" by (rule power_increasing) simp_all
  ultimately have "\<bar>rat_of_int n\<bar> \<le> 2 ^ 64" using assms(1) by simp
  then have "\<not> float_limit \<le> \<bar>rat_of_int n\<bar>" by (rule below_float_limit)
  then show ?thesis unfolding float_of_int_def Let_def f by simp
qed

lemma int_of_product_cell:
  assumes n: "0 \<le> n" "n < 2 ^ 31"
    and lo: "of_int m \<le> of_int n * x" and m: "0 \<le> m" "m < 2 ^ 40"
    and hi: "of_int n * x * (1 + 1 / 2 ^ 53) < of_int m + 1"
    and nz: "1 / 2 ^ 40 \<le> of_int n * x"
  shows "int_of_product n x = Inr m"
proof -
  define y where "y = rat_of_int n * x"
  have "(0::rat) < 1 / 2 ^ 40" by simp
  then have y0: "0 < y" using nz unfolding y_def by linarith
  have norm: "2 powi (- 1022) \<le> y" using nz normal_ge unfolding y_def by simp
  have err: "\<bar>binary64 y - y\<bar> \<le> y / 2 ^ 53" using binary64_error [OF y0 norm] .
  have "m \<le> 2 ^ 53" using m by simp
  then have ge: "of_int m \<le> binary64 y"
    using binary64_ge_int [OF y0, of m] lo unfolding y_def by simp
  have "binary64 y \<le> y + y / 2 ^ 53" using err by linarith
  also have "\<dots> = y * (1 + 1 / 2 ^ 53)" by (simp add: algebra_simps)
  also have "\<dots> < of_int m + 1" using hi unfolding y_def .
  finally have lt: "binary64 y < of_int m + 1" .
  have fb: "\<lfloor>binary64 y\<rfloor> = m" using ge lt by (simp add: floor_unique)
  have m0: "(0::rat) \<le> of_int m" using m by simp
  have nn: "0 \<le> binary64 y" using ge m0 by linarith
  have "rat_of_int m < of_int (2 ^ 40)" using m by (simp only: of_int_less_iff)
  then have "rat_of_int m + 1 \<le> 2 ^ 40" by simp
  moreover have "(2::rat) ^ 40 \<le> 2 ^ 64" by (rule power_increasing) simp_all
  ultimately have "\<bar>binary64 y\<bar> \<le> 2 ^ 64" using lt nn by linarith
  then have fin: "\<not> float_limit \<le> \<bar>binary64 y\<bar>" by (rule below_float_limit)
  show ?thesis
    unfolding int_of_product_def int_times_float_def float_of_small_int [OF n] py_int_def
    using fin nn fb by (simp add: y_def)
qed

lemma int_of_product_zero: "int_of_product 0 x = Inr 0"
proof -
  have z: "binary64 0 = 0" by (simp add: binary64_def)
  have "\<not> float_limit \<le> \<bar>0::rat\<bar>" by (rule below_float_limit) simp
  then show ?thesis
    using float_of_small_int [of 0]
    by (simp add: int_of_product_def int_times_float_def py_int_def z)
qed

lemma max_height_eq:
  assumes W: "0 \<le> W" "W < 2 ^ 31"
  shows "max_height W = Inr (8 * W div 5)"
proof (cases "W = 0")
  case True
  then show ?thesis by (simp add: max_height_def int_of_product_zero)
next
  case False
  then have W1: "1 \<le> W" using W by simp
  define m where "m = 8 * W div 5"
  define c where "c = binary64 (16 / 10)"
  define v where "v = rat_of_int W"
  have c: "c = 8 / 5 + 1 / (5 * 2 ^ 51)" unfolding c_def by (rule literal_1_6)
  have v1: "1 \<le> v" unfolding v_def using W1 by simp
  have "rat_of_int W < of_int (2 ^ 31)" using W by (simp only: of_int_less_iff)
  then have v2: "v < 2 ^ 31" by (simp add: v_def)
  have vc: "v * c = 8 * v / 5 + v / (5 * 2 ^ 51)" unfolding c by (simp add: algebra_simps)
  have "5 * m \<le> 8 * W" and "8 * W \<le> 5 * m + 4" unfolding m_def by presburger+
  then have "rat_of_int (5 * m) \<le> of_int (8 * W)" and "rat_of_int (8 * W) \<le> of_int (5 * m + 4)"
    by (simp_all only: of_int_le_iff)
  then have m1: "5 * rat_of_int m \<le> 8 * v" and m2: "8 * v \<le> 5 * rat_of_int m + 4"
    by (simp_all add: v_def)
  have m0: "0 \<le> m" unfolding m_def using W by simp
  have "m < 2 ^ 40" unfolding m_def using W by simp
  note mb = m0 this
  have lo: "of_int m \<le> of_int W * c"
    using m1 v1 unfolding vc v_def [symmetric] by simp
  have t1: "v / (5 * 2 ^ 51) < 1 / 100" using v2 by simp
  have t2: "v * c < 2 ^ 32" using v2 v1 unfolding vc by simp
  have t3: "v * c / 2 ^ 53 < 1 / 100"
  proof -
    define p where "p = v * c"
    have "p < 2 ^ 32" using t2 by (simp add: p_def)
    then have "p / 2 ^ 53 < 1 / 100" by simp
    then show ?thesis by (simp only: p_def)
  qed
  have "v * c * (1 + 1 / 2 ^ 53) = v * c + v * c / 2 ^ 53" by (simp add: algebra_simps)
  also have "\<dots> < of_int m + 1" using t1 t3 m2 unfolding vc by linarith
  finally have hi: "of_int W * c * (1 + 1 / 2 ^ 53) < of_int m + 1" unfolding v_def .
  have nz: "1 / 2 ^ 40 \<le> of_int W * c" using v1 unfolding vc v_def [symmetric] by simp
  show ?thesis
    unfolding max_height_def c_def [symmetric] m_def [symmetric]
    using int_of_product_cell [OF W lo mb hi nz] .
qed

lemma int_of_product_floor:
  assumes n: "0 \<le> n" "n < 2 ^ 31"
    and nz: "1 / 2 ^ 40 \<le> of_int n * x" and up: "of_int n * x \<le> 2 ^ 63"
  shows "int_of_product n x = Inr \<lfloor>binary64 (of_int n * x)\<rfloor>"
    and "0 \<le> binary64 (of_int n * x)"
    and "\<bar>binary64 (of_int n * x) - of_int n * x\<bar> \<le> of_int n * x / 2 ^ 53"
proof -
  define y where "y = rat_of_int n * x"
  have "(0::rat) < 1 / 2 ^ 40" by simp
  then have y0: "0 < y" using nz unfolding y_def by linarith
  have norm: "2 powi (- 1022) \<le> y" using nz normal_ge unfolding y_def by simp
  have err: "\<bar>binary64 y - y\<bar> \<le> y / 2 ^ 53" using binary64_error [OF y0 norm] .
  have nn: "0 \<le> binary64 y" using binary64_nonneg [of y] y0 by simp
  have "y / 2 ^ 53 \<le> y" using y0 by (simp add: field_simps)
  then have "binary64 y \<le> 2 * y" using err by linarith
  also have "\<dots> \<le> 2 * 2 ^ 63" using up unfolding y_def [symmetric] by linarith
  also have "\<dots> = (2::rat) ^ 64" by simp
  finally have "\<bar>binary64 y\<bar> \<le> 2 ^ 64" using nn by simp
  then have fin: "\<not> float_limit \<le> \<bar>binary64 y\<bar>" by (rule below_float_limit)
  show "int_of_product n x = Inr \<lfloor>binary64 (of_int n * x)\<rfloor>"
    unfolding int_of_product_def int_times_float_def float_of_small_int [OF n] py_int_def
    using fin nn by (simp add: y_def)
  show "0 \<le> binary64 (of_int n * x)" using nn by (simp add: y_def)
  show "\<bar>binary64 (of_int n * x) - of_int n * x\<bar> \<le> of_int n * x / 2 ^ 53"
    using err by (simp add: y_def)
qed

lemma py_truediv_sizes:
  assumes W: "1 \<le> W" "W < 2 ^ 31" and w: "1 \<le> w" "w < 2 ^ 31"
  shows "py_truediv W w = Inr (binary64 (of_int W / of_int w))"
    and "\<bar>binary64 (of_int W / of_int w) - of_int W / of_int w\<bar> \<le> of_int W / of_int w / 2 ^ 53"
    and "1 / 2 ^ 31 \<le> rat_of_int W / of_int w"
    and "rat_of_int W / of_int w \<le> 2 ^ 31"
proof -
  define a where "a = rat_of_int W / of_int w"
  have v1: "1 \<le> rat_of_int W" and w1: "1 \<le> rat_of_int w" using W w by simp_all
  have "rat_of_int W < of_int (2 ^ 31)" using W by (simp only: of_int_less_iff)
  then have v2: "rat_of_int W < 2 ^ 31" by simp
  have "rat_of_int w < of_int (2 ^ 31)" using w by (simp only: of_int_less_iff)
  then have w2: "rat_of_int w < 2 ^ 31" by simp
  have lo: "1 / 2 ^ 31 \<le> a"
    unfolding a_def using v1 w1 w2 by (intro frac_le) simp_all
  have "a \<le> rat_of_int W / 1" unfolding a_def using v1 w1 by (intro frac_le) simp_all
  then have hi: "a \<le> 2 ^ 31" using v2 by simp
  have "(0::rat) < 1 / 2 ^ 31" by simp
  then have a0: "0 < a" using lo by linarith
  have "(1::rat) / 2 ^ 40 \<le> 1 / 2 ^ 31" by simp
  then have norm: "2 powi (- 1022) \<le> a" using lo normal_ge [of a] by linarith
  have err: "\<bar>binary64 a - a\<bar> \<le> a / 2 ^ 53" using binary64_error [OF a0 norm] .
  have "a / 2 ^ 53 \<le> a" using a0 by (simp add: field_simps)
  then have "\<bar>binary64 a\<bar> \<le> 2 * a" using err by linarith
  also have "\<dots> \<le> 2 ^ 64" using hi by simp
  finally have fin: "\<not> float_limit \<le> \<bar>binary64 a\<bar>" by (rule below_float_limit)
  have wz: "w \<noteq> 0" using w by simp
  show "py_truediv W w = Inr (binary64 (of_int W / of_int w))"
    unfolding py_truediv_def Let_def using fin wz by (simp add: a_def)
  show "\<bar>binary64 (of_int W / of_int w) - of_int W / of_int w\<bar> \<le> of_int W / of_int w / 2 ^ 53"
    using err by (simp add: a_def)
  show "1 / 2 ^ 31 \<le> rat_of_int W / of_int w" using lo by (simp add: a_def)
  show "rat_of_int W / of_int w \<le> 2 ^ 31" using hi by (simp add: a_def)
qed

lemma target_height_sizes:
  assumes W: "1 \<le> W" "W < 2 ^ 31" and w: "1 \<le> w" "w < 2 ^ 31" and H: "1 \<le> H" "H < 2 ^ 31"
  defines "a \<equiv> rat_of_int W / of_int w"
  defines "q \<equiv> rat_of_int H * binary64 (rat_of_int W / of_int w)"
  shows "target_height W w H = Inr \<lfloor>binary64 q\<rfloor>"
    and "0 < q"
    and "\<bar>binary64 q - q\<bar> \<le> q / 2 ^ 53"
    and "\<bar>q - of_int H * a\<bar> \<le> of_int H * a / 2 ^ 53"
proof -
  define s where "s = binary64 a"
  define h where "h = rat_of_int H"
  have h1: "1 \<le> h" using H by (simp add: h_def)
  have "rat_of_int H < of_int (2 ^ 31)" using H by (simp only: of_int_less_iff)
  then have h2: "h < 2 ^ 31" by (simp add: h_def)
  note d = py_truediv_sizes [OF W w, folded a_def, folded s_def]
  have a_lo: "1 / 2 ^ 31 \<le> a" and a_hi: "a \<le> 2 ^ 31" using d(3,4) .
  have s_err: "\<bar>s - a\<bar> \<le> a / 2 ^ 53" using d(2) .
  have a53: "a / 2 ^ 53 \<le> a / 2" using a_lo by simp
  have s1: "a / 2 \<le> s" and s2: "s \<le> 2 * a" using s_err a53 a_lo by linarith+
  have "(1::rat) / 2 ^ 32 \<le> a / 2" using a_lo by simp
  then have s_lo: "1 / 2 ^ 32 \<le> s" using s1 by linarith
  have "2 * a \<le> 2 ^ 32" using a_hi by simp
  then have s_hi: "s \<le> 2 ^ 32" using s2 by linarith
  have "(0::rat) \<le> 1 / 2 ^ 32" by simp
  then have s0: "0 \<le> s" using s_lo by linarith
  have q: "q = h * s" by (simp add: q_def h_def s_def a_def)
  have "s \<le> h * s" using mult_right_mono [OF h1 s0] by (simp only: mult_1_left)
  with s_lo have q_lo: "1 / 2 ^ 32 \<le> h * s" by (rule order_trans)
  have "h \<le> 2 ^ 31" using h2 by simp
  then have "h * s \<le> 2 ^ 31 * s" using s0 by (rule mult_right_mono)
  moreover have "(2::rat) ^ 31 * s \<le> 2 ^ 31 * 2 ^ 32" using s_hi by (intro mult_left_mono) simp_all
  moreover have "(2::rat) ^ 31 * 2 ^ 32 = 2 ^ 63" by simp
  ultimately have q_hi: "h * s \<le> 2 ^ 63" by linarith
  have nz: "1 / 2 ^ 40 \<le> of_int H * s" using q_lo unfolding h_def by simp
  have up: "of_int H * s \<le> 2 ^ 63" using q_hi unfolding h_def by simp
  have H0: "0 \<le> H" using H by simp
  note f = int_of_product_floor [OF H0 H(2) nz up]
  show "target_height W w H = Inr \<lfloor>binary64 q\<rfloor>"
    unfolding target_height_def d(1) using f(1) by (simp add: q h_def)
  have "(0::rat) < 1 / 2 ^ 32" by simp
  then show "0 < q" using q_lo unfolding q by linarith
  show "\<bar>binary64 q - q\<bar> \<le> q / 2 ^ 53" using f(3) by (simp add: q h_def)
  have h0: "0 \<le> h" using h1 by simp
  have "h * s - h * a = h * (s - a)" by (simp only: right_diff_distrib)
  then have "\<bar>h * s - h * a\<bar> = \<bar>h\<bar> * \<bar>s - a\<bar>" by (simp only: abs_mult)
  also have "\<dots> = h * \<bar>s - a\<bar>" using h0 by (simp only: abs_of_nonneg)
  also have "\<dots> \<le> h * (a / 2 ^ 53)" using s_err h0 by (rule mult_left_mono)
  finally show "\<bar>q - of_int H * a\<bar> \<le> of_int H * a / 2 ^ 53" by (simp add: q h_def)
qed

lemma cap_floor:
  assumes W: "1 \<le> W" "W < 2 ^ 31"
  shows "5 * rat_of_int (8 * W div 5) \<le> 8 * of_int W"
    and "8 * rat_of_int W \<le> 5 * of_int (8 * W div 5) + 4"
    and "rat_of_int W < 2 ^ 31"
proof -
  have "5 * (8 * W div 5) \<le> 8 * W" and "8 * W \<le> 5 * (8 * W div 5) + 4" by presburger+
  then have "rat_of_int (5 * (8 * W div 5)) \<le> of_int (8 * W)"
    and "rat_of_int (8 * W) \<le> of_int (5 * (8 * W div 5) + 4)"
    by (simp_all only: of_int_le_iff)
  then show "5 * rat_of_int (8 * W div 5) \<le> 8 * of_int W"
    and "8 * rat_of_int W \<le> 5 * of_int (8 * W div 5) + 4" by simp_all
  have "rat_of_int W < of_int (2 ^ 31)" using W by (simp only: of_int_less_iff)
  then show "rat_of_int W < 2 ^ 31" by simp
qed

lemma target_height_le_cap:
  assumes W: "1 \<le> W" "W < 2 ^ 31" and w: "1 \<le> w" "w < 2 ^ 31" and H: "1 \<le> H" "H < 2 ^ 31"
    and ratio: "5 * H \<le> 8 * w"
  shows "\<exists>t. target_height W w H = Inr t \<and> 0 \<le> t \<and> t \<le> 8 * W div 5"
proof -
  define q where "q = rat_of_int H * binary64 (rat_of_int W / of_int w)"
  define P where "P = rat_of_int H * (rat_of_int W / of_int w)"
  define m where "m = 8 * W div 5"
  note t = target_height_sizes [OF W w H, folded q_def, folded P_def]
  note c = cap_floor [OF W, folded m_def]
  have w0: "0 < rat_of_int w" using w by simp
  have v0: "0 \<le> rat_of_int W" using W by simp
  have "rat_of_int (5 * H) \<le> of_int (8 * w)" using ratio by (simp only: of_int_le_iff)
  then have "5 * rat_of_int H \<le> 8 * of_int w" by simp
  then have "5 * rat_of_int H * of_int W \<le> 8 * of_int w * of_int W"
    using v0 by (rule mult_right_mono)
  then have "5 * P \<le> 8 * rat_of_int W"
    unfolding P_def using w0 by (simp add: field_simps)
  then have P1: "5 * P \<le> 5 * rat_of_int m + 4" using c(2) by linarith
  have P2: "P < 2 ^ 32" using \<open>5 * P \<le> 8 * rat_of_int W\<close> c(3) by simp
  have e1: "P / 2 ^ 53 < 1 / 2 ^ 21" using P2 by simp
  have q1: "q \<le> P + P / 2 ^ 53" using t(4) by linarith
  have q2: "q < 2 ^ 33" using q1 e1 P2 by simp
  have e2: "q / 2 ^ 53 < 1 / 2 ^ 20" using q2 by simp
  have b1: "binary64 q \<le> q + q / 2 ^ 53" using t(3) by linarith
  have "binary64 q < P + 1 / 2 ^ 21 + 1 / 2 ^ 20" using b1 q1 e1 e2 by linarith
  moreover have "(1::rat) / 2 ^ 21 + 1 / 2 ^ 20 < 1 / 5" by simp
  ultimately have "binary64 q < of_int m + 1" using P1 by linarith
  then have "binary64 q < of_int (m + 1)" by simp
  then have up: "\<lfloor>binary64 q\<rfloor> < m + 1" by (simp only: floor_less_iff)
  have "0 \<le> binary64 q" using binary64_nonneg [of q] t(2) by simp
  then have lo: "0 \<le> \<lfloor>binary64 q\<rfloor>" by simp
  show ?thesis using t(1) up lo by (simp add: m_def)
qed


lemma floor_cap: "\<lfloor>rat_of_int W * 16 / 10\<rfloor> = 8 * W div 5"
proof -
  have "rat_of_int W * 16 / 10 = of_int (8 * W) / of_int 5" by simp
  then show ?thesis by (simp only: floor_divide_of_int_eq)
qed

lemma ratio_le_iff:
  assumes "1 \<le> ow"
  shows "rat_of_int oh / of_int ow \<le> 16 / 10 \<longleftrightarrow> 5 * oh \<le> 8 * ow"
proof -
  have w0: "0 < rat_of_int ow" using assms by simp
  have "rat_of_int oh / of_int ow \<le> 16 / 10 \<longleftrightarrow> 5 * rat_of_int oh \<le> 8 * of_int ow"
    using w0 by (simp add: field_simps)
  also have "\<dots> \<longleftrightarrow> rat_of_int (5 * oh) \<le> of_int (8 * ow)" by simp
  also have "\<dots> \<longleftrightarrow> 5 * oh \<le> 8 * ow" by (simp only: of_int_le_iff)
  finally show ?thesis .
qed


lemma target_height_near_quotient:
  assumes W: "1 \<le> W" "W < 2 ^ 31" and w: "1 \<le> ow" "ow < 2 ^ 31" and H: "1 \<le> oh" "oh < 2 ^ 31"
    and ratio: "5 * oh \<le> 8 * ow"
  defines "P \<equiv> rat_of_int oh * rat_of_int W / of_int ow"
  defines "th \<equiv> \<lfloor>binary64 (rat_of_int oh * binary64 (rat_of_int W / of_int ow))\<rfloor>"
  shows "P - 1 - 1 / 2 ^ 19 < of_int th" and "of_int th \<le> P + 1 / 2 ^ 19"
proof -
  define q where "q = rat_of_int oh * binary64 (rat_of_int W / of_int ow)"
  define R where "R = rat_of_int oh * (rat_of_int W / of_int ow)"
  note t = target_height_sizes [OF W w H, folded q_def, folded R_def]
  note c = cap_floor [OF W]
  have RP: "R = P" by (simp add: R_def P_def)
  have w0: "0 < rat_of_int ow" using w by simp
  have v0: "0 \<le> rat_of_int W" using W by simp
  have "rat_of_int (5 * oh) \<le> of_int (8 * ow)" using ratio by (simp only: of_int_le_iff)
  then have "5 * rat_of_int oh \<le> 8 * of_int ow" by simp
  then have "5 * rat_of_int oh * of_int W \<le> 8 * of_int ow * of_int W"
    using v0 by (rule mult_right_mono)
  then have "5 * R \<le> 8 * rat_of_int W"
    unfolding R_def using w0 by (simp add: field_simps)
  then have R2: "R < 2 ^ 32" using c(3) by simp
  have R0: "0 \<le> R" unfolding R_def using w0 v0 H by simp
  have e1: "R / 2 ^ 53 < 1 / 2 ^ 21" using R2 by simp
  have q1: "q \<le> R + R / 2 ^ 53" and q1': "R - R / 2 ^ 53 \<le> q" using t(4) by linarith+
  have q2: "q < 2 ^ 33" using q1 e1 R2 by simp
  have e2: "q / 2 ^ 53 < 1 / 2 ^ 20" using q2 by simp
  have b1: "binary64 q \<le> q + q / 2 ^ 53" and b1': "q - q / 2 ^ 53 \<le> binary64 q"
    using t(3) by linarith+
  have s: "(1::rat) / 2 ^ 21 + 1 / 2 ^ 20 < 1 / 2 ^ 19" by simp
  have up: "binary64 q < R + 1 / 2 ^ 19" using b1 q1 e1 e2 s by linarith
  have lo: "R - 1 / 2 ^ 19 < binary64 q" using b1' q1' e1 e2 s by linarith
  have f1: "of_int \<lfloor>binary64 q\<rfloor> \<le> binary64 q" by simp
  have f2: "binary64 q - 1 < of_int \<lfloor>binary64 q\<rfloor>" by linarith
  show "P - 1 - 1 / 2 ^ 19 < of_int th" using lo f2 unfolding th_def q_def [symmetric] RP by linarith
  show "of_int th \<le> P + 1 / 2 ^ 19" using up f1 unfolding th_def q_def [symmetric] RP by linarith
qed

lemma target_height_eval:
  assumes "1 \<le> W" "W < 2 ^ 31" "1 \<le> ow" "ow < 2 ^ 31" "1 \<le> oh" "oh < 2 ^ 31"
    and "\<lfloor>binary64 (rat_of_int oh * binary64 (rat_of_int W / of_int ow))\<rfloor> = t"
  shows "target_height W ow oh = Inr t"
  using target_height_sizes(1) [OF assms(1-6)] assms(7) by simp

section \<open>Sizes and modes through the image operations\<close>


lemma convert_to_rgb_size: "convert_to_rgb L img = Inr out \<Longrightarrow> im_size out = im_size img"
  by (auto simp: convert_to_rgb_def Let_def paste_def convert_def Image_new_def
      split: if_splits sum.splits)

lemma scale_and_crop_size:
  assumes "scale_and_crop L img tw th mh = Inr out"
  shows "im_size out = (tw, min th mh)"
  using assms
  by (auto simp: scale_and_crop_def resize_def crop_def split: if_splits sum.splits)

lemma scale_and_crop_no_crop:
  "th \<le> cap \<Longrightarrow> scale_and_crop L img W th cap = resize L img (W, th)"
  by (simp add: scale_and_crop_def)


lemma save_jpeg_size: "save_jpeg L img q = Inr b \<Longrightarrow> decoded_size b = Some (im_size img)"
  by (auto simp: save_jpeg_def split: sum.splits)

lemma create_thumbnail_SomeD:
  assumes "create_thumbnail L w path W = Some b" and "images w path = Some img"
  obtains th cap t rgb where
    "target_height W (fst (im_size img)) (snd (im_size img)) = Inr th"
    "max_height W = Inr cap"
    "scale_and_crop L img W th cap = Inr t"
    "convert_to_rgb L t = Inr rgb"
    "save_jpeg L rgb 90 = Inr b"
  using assms
  by (auto simp: create_thumbnail_def thumbnail_try_def Image_open_def Let_def
      split: sum.splits prod.splits)

text \<open>
  For sizes of the imaging library no arithmetic step of \<open>create_thumbnail\<close> raises: it returns
  a buffer exactly when the library calls of the pipeline succeed.
\<close>

lemma create_thumbnail_library_only:
  assumes "images w path = Some img" and "im_size img = (ow, oh)"
    and "1 \<le> ow" "ow < 2 ^ 31" "1 \<le> oh" "oh < 2 ^ 31" "1 \<le> W" "W < 2 ^ 31"
  defines "th \<equiv> \<lfloor>binary64 (rat_of_int oh * binary64 (rat_of_int W / of_int ow))\<rfloor>"
  defines "cap \<equiv> \<lfloor>rat_of_int W * 16 / 10\<rfloor>"
  shows "create_thumbnail L w path W =
     (case scale_and_crop L img W th cap of Inl e \<Rightarrow> None
      | Inr t \<Rightarrow>
          (case convert_to_rgb L t of Inl e \<Rightarrow> None
           | Inr rgb \<Rightarrow> (case save_jpeg L rgb 90 of Inl e \<Rightarrow> None | Inr b \<Rightarrow> Some b)))"
proof -
  have W0: "0 \<le> W" using assms(7) by simp
  have c: "max_height W = Inr cap"
    unfolding cap_def floor_cap using max_height_eq [OF W0 assms(8)] .
  have t: "target_height W ow oh = Inr th"
    unfolding th_def using target_height_sizes(1) [OF assms(7,8,3,4,5,6)] .
  show ?thesis
    by (simp add: create_thumbnail_def thumbnail_try_def Image_open_def assms(1,2) t c
        split: sum.splits)
qed


lemma compress_image_cases:
  assumes "images w path = Some img"
  shows "compress_image L w path q =
     (case convert_to_rgb L img of Inl e \<Rightarrow> Empty_bytes
      | Inr rgb \<Rightarrow> (case save_jpeg L rgb q of Inl e \<Rightarrow> Empty_bytes | Inr b \<Rightarrow> b))"
  using assms by (simp add: compress_image_def Image_open_def split: sum.splits)

lemma compress_image_images:
  "images w' = images w \<Longrightarrow> compress_image L w' p q = compress_image L w p q"
  by (simp add: compress_image_def Image_open_def)

section \<open>The generator in closed form\<close>

lemma report_progress_simps [simp]:
  "images (report_progress g c t m w) = images w"
  "writable (report_progress g c t m w) = writable w"
  "written (report_progress g c t m w) = written w"
  "log (report_progress g c t m w) = log w @ (if progress_callback g then [Progress c t m] else [])"
  by (simp_all add: report_progress_def)

lemma compress_loop_eq:
  "compress_loop L g q tot (int n) paths acc w =
     (acc @ filter (\<lambda>b. b \<noteq> Empty_bytes) (map (\<lambda>p. compress_image L w p q) paths),
      w\<lparr>log := log w @ concat (map (\<lambda>(k, p).
           (if progress_callback g
            then [Progress (int k + 1) tot (Processing_page (int k + 1) tot)] else [])
           @ [Compress p]) (enumerate n paths))\<rparr>)"
proof (induction paths arbitrary: n acc w)
  case Nil
  then show ?case by simp
next
  case (Cons p ps)
  let ?w1 = "report_progress g (int n + 1) tot (Processing_page (int n + 1) tot) w"
  let ?w2 = "?w1\<lparr>log := log ?w1 @ [Compress p]\<rparr>"
  have i: "int n + 1 = int (Suc n)" by simp
  have c1: "compress_image L ?w1 p q = compress_image L w p q"
    by (rule compress_image_images) simp
  have c2: "\<And>x. compress_image L ?w2 x q = compress_image L w x q"
    by (rule compress_image_images) simp
  show ?case
    apply (simp only: compress_loop.simps Let_def i Cons.IH)
    apply (simp only: i [symmetric] c1 c2)
    apply (simp add: report_progress_def)
    done
qed


lemma layout_original: "layout_fun ''original'' m = Inr (Layout None None None)"
  by (simp add: layout_fun_def)

lemma layout_a4:
  "layout_fun ''a4'' m = Inr (Layout (Some (mm_to_pt 210, mm_to_pt 297)) (Some into)
      (Some (mm_to_pt m, mm_to_pt m, mm_to_pt m, mm_to_pt m)))"
  by (simp add: layout_fun_def PAGE_SIZES_def Let_def)

lemma generate_pdf_eq:
  fixes L :: libs and g :: pdf_generator and w :: world and quality :: int
    and image_paths :: "string list"
  assumes "image_paths \<noteq> []"
  defines "N \<equiv> int (length image_paths)"
  defines "bufs \<equiv> filter (\<lambda>b. b \<noteq> Empty_bytes) (map (\<lambda>p. compress_image L w p quality) image_paths)"
  defines "w1 \<equiv> w\<lparr>log := log w @ concat (map (\<lambda>(k, p).
           (if progress_callback g
            then [Progress (int k + 1) N (Processing_page (int k + 1) N)] else [])
           @ [Compress p]) (enumerate 0 image_paths))\<rparr>"
  defines "w2 \<equiv> report_progress g N N Generating_pdf w1"
  shows "generate_pdf L g image_paths output_path page_size quality margin_mm w =
     (if bufs = [] then (False, w1)
      else (case layout_fun page_size margin_mm of
              Inl e \<Rightarrow> (False, report_progress g 0 0 (Failed e) w2)
            | Inr lf \<Rightarrow>
                (case pdf_refuses L bufs lf of
                   Some e \<Rightarrow> (False, report_progress g 0 0 (Failed e) w2)
                 | None \<Rightarrow>
                     if writable w output_path
                     then (True, report_progress g N N Finished
                            (w2\<lparr>written := (written w)(output_path \<mapsto>
                               map (\<lambda>b. \<lparr>page_image = b, page_layout = lf\<rparr>) bufs)\<rparr>))
                     else (False, report_progress g 0 0 (Failed IOError) w2))))"
proof -
  have loop: "compress_loop L g quality N 0 image_paths [] w = (bufs, w1)"
    using compress_loop_eq [of L g quality N 0 image_paths "[]" w]
    by (simp add: bufs_def w1_def)
  have wr: "writable w2 = writable w" "written w2 = written w"
    by (simp_all add: w2_def w1_def)
  show ?thesis
    using assms(1)
    by (simp add: generate_pdf_def generate_pdf_try_def Let_def N_def [symmetric] loop
        w2_def [symmetric] img2pdf_convert_def write_file_def wr
        split: sum.splits option.splits)
qed

lemma layout_letter:
  "layout_fun ''letter'' m = Inr (Layout
      (Some (mm_to_pt (binary64 (2159 / 10)), mm_to_pt (binary64 (2794 / 10)))) (Some into)
      (Some (mm_to_pt m, mm_to_pt m, mm_to_pt m, mm_to_pt m)))"
  by (simp add: layout_fun_def PAGE_SIZES_def Let_def)

lemma layout_unknown:
  assumes "page_size \<notin> {''original'', ''a4'', ''letter''}"
  shows "layout_fun page_size m = Inr (Layout (Some (mm_to_pt 210, mm_to_pt 297)) (Some into)
      (Some (mm_to_pt m, mm_to_pt m, mm_to_pt m, mm_to_pt m)))"
  using assms by (simp add: layout_fun_def PAGE_SIZES_def Let_def)

lemma mm_to_pt_nonneg: "0 \<le> len \<Longrightarrow> 0 \<le> mm_to_pt len"
  unfolding mm_to_pt_def
  by (intro binary64_nonneg divide_nonneg_nonneg) simp_all

lemma generate_pdf_written:
  assumes "bufs = filter (\<lambda>b. b \<noteq> Empty_bytes)
                    (map (\<lambda>p. compress_image L w p quality) image_paths)"
    and "1 \<le> length bufs"
    and "layout_fun page_size margin_mm = Inr lf"
    and "pdf_refuses L bufs lf = None"
    and "writable w output_path"
  shows "fst (generate_pdf L g image_paths output_path page_size quality margin_mm w)"
    and "written (snd (generate_pdf L g image_paths output_path page_size quality margin_mm w))
           output_path = Some (map (\<lambda>b. \<lparr>page_image = b, page_layout = lf\<rparr>) bufs)"
proof -
  have ne: "image_paths \<noteq> []" using assms(1,2) by auto
  have b: "bufs \<noteq> []" using assms(2) by auto
  show "fst (generate_pdf L g image_paths output_path page_size quality margin_mm w)"
    using b assms(3,4,5) by (simp add: generate_pdf_eq [OF ne] assms(1) [symmetric])
  show "written (snd (generate_pdf L g image_paths output_path page_size quality margin_mm w))
           output_path = Some (map (\<lambda>b. \<lparr>page_image = b, page_layout = lf\<rparr>) bufs)"
    using b assms(3,4,5) by (simp add: generate_pdf_eq [OF ne] assms(1) [symmetric])
qed

lemma generate_pdf_same_layout:
  assumes "layout_fun page_size margin_mm = layout_fun page_size' margin_mm"
  shows "generate_pdf L g image_paths output_path page_size quality margin_mm w
       = generate_pdf L g image_paths output_path page_size' quality margin_mm w"
  unfolding generate_pdf_def generate_pdf_try_def assms by (rule refl)

lemma single_page_document:
  fixes pdf :: pdf
  assumes "map page_image pdf = [b]" and "\<forall>pg \<in> set pdf. page_layout pg = lf"
  shows "pdf = [\<lparr>page_image = b, page_layout = lf\<rparr>]"
proof -
  from assms(1) obtain pg where p: "pdf = [pg]" and i: "page_image pg = b" by (cases pdf) auto
  from assms(2) p have "page_layout pg = lf" by simp
  with i have "pg = \<lparr>page_image = b, page_layout = lf\<rparr>" by (cases pg) simp
  with p show ?thesis by simp
qed

lemma progress_counts_append [simp]:
  "progress_counts (xs @ ys) = progress_counts xs @ progress_counts ys"
  by (induction xs rule: progress_counts.induct) simp_all




section \<open>The placed image stays inside the inset page\<close>

lemma fit_into_inside:
  assumes "1 \<le> iw" "1 \<le> ih" "0 \<le> m" "2 * m \<le> pw" "2 * m \<le> ph"
  shows "\<exists>x y wd ht. fit_into (pw, ph) (m, m, m, m) (iw, ih) = (x, y, wd, ht)
      \<and> m \<le> x \<and> x + wd \<le> pw - m \<and> m \<le> y \<and> y + ht \<le> ph - m
      \<and> wd * of_int ih = ht * of_int iw
      \<and> (wd = pw - 2 * m \<or> ht = ph - 2 * m)"
proof -
  define bw where "bw = pw - m - m"
  define bh where "bh = ph - m - m"
  define a where "a = rat_of_int iw"
  define b where "b = rat_of_int ih"
  define s where "s = min (bw / a) (bh / b)"
  define wd where "wd = s * a"
  define ht where "ht = s * b"
  have a0: "0 < a" and b0: "0 < b" using assms(1,2) by (simp_all add: a_def b_def)
  have f: "fit_into (pw, ph) (m, m, m, m) (iw, ih) = ((pw - wd) / 2, (ph - ht) / 2, wd, ht)"
    by (simp add: fit_into_def Let_def wd_def ht_def s_def bw_def bh_def a_def b_def)
  have "s \<le> bw / a" by (simp add: s_def)
  then have w1: "s * a \<le> bw" using a0 by (simp add: pos_le_divide_eq)
  have "s \<le> bh / b" by (simp add: s_def)
  then have h1: "s * b \<le> bh" using b0 by (simp add: pos_le_divide_eq)
  have asp: "wd * of_int ih = ht * of_int iw" by (simp add: wd_def ht_def a_def b_def)
  have touch: "s * a = bw \<or> s * b = bh"
  proof (cases "bw / a \<le> bh / b")
    case True
    then have "s = bw / a" by (simp add: s_def)
    then show ?thesis using a0 by simp
  next
    case False
    then have "s = bh / b" by (simp add: s_def)
    then show ?thesis using b0 by simp
  qed
  have w2: "wd \<le> pw - m - m" using w1 by (simp add: wd_def bw_def)
  have h2: "ht \<le> ph - m - m" using h1 by (simp add: ht_def bh_def)
  have x1: "m \<le> (pw - wd) / 2" using w2 by (simp add: field_simps)
  have x2: "(pw - wd) / 2 + wd \<le> pw - m" using w2 by (simp add: field_simps)
  have y1: "m \<le> (ph - ht) / 2" using h2 by (simp add: field_simps)
  have y2: "(ph - ht) / 2 + ht \<le> ph - m" using h2 by (simp add: field_simps)
  have t: "wd = pw - 2 * m \<or> ht = ph - 2 * m" using touch by (simp add: wd_def ht_def bw_def bh_def)
  from f x1 x2 y1 y2 asp t show ?thesis by blast
qed

lemma fit_into_aspect:
  assumes "fit_into page_pt border_pt (iw, ih) = (x, y, wd, ht)"
  shows "wd * of_int ih = ht * of_int iw"
  using assms by (auto simp add: fit_into_def Let_def split: prod.splits)

lemma fit_into_inset:
  assumes "fit_into (pw, ph) (m, m, m, m) (iw, ih) = (x, y, wd, ht)"
    and "1 \<le> iw" "1 \<le> ih" "0 \<le> m" "2 * m \<le> pw" "2 * m \<le> ph"
  shows "m \<le> x \<and> x + wd \<le> pw - m \<and> m \<le> y \<and> y + ht \<le> ph - m
      \<and> (wd = pw - 2 * m \<or> ht = ph - 2 * m)"
  using fit_into_inside [OF assms(2-6)] assms(1) by auto


section \<open>Running the functions on the shelf\<close>

lemma page_file: "images shelf ''page.png'' = Some (flat_image ''RGB'' 7 10)"
  by (simp add: shelf_def)

lemma strip_file: "images shelf ''strip.png'' = Some (flat_image ''RGBA'' 800 20000)"
  by (simp add: shelf_def)

lemma cover_file: "images shelf ''cover.gif'' = Some (flat_image ''P'' 640 480)"
  by (simp add: shelf_def)

lemma scan_file: "images shelf ''scan.jpg'' = Some (flat_image ''L'' 1000 1600)"
  by (simp add: shelf_def)

lemma page_target: "target_height 300 7 10 = Inr 428"
  by (rule target_height_eval) (simp_all, code_simp)

lemma strip_target: "target_height 160 800 20000 = Inr 4000"
  by (rule target_height_eval) (simp_all, code_simp)

lemma page_thumbnail:
  "create_thumbnail simple_libs shelf ''page.png'' 300 = Some (Jpeg_bytes (300, 428) [])"
proof -
  have m: "max_height 300 = Inr 480" using max_height_eq [of 300] by simp
  show ?thesis
    by (simp add: create_thumbnail_def thumbnail_try_def Image_open_def page_file
        flat_image_def page_target m scale_and_crop_def resize_def simple_libs_def
        convert_to_rgb_def save_jpeg_def)
qed

lemma strip_thumbnail:
  "create_thumbnail simple_libs shelf ''strip.png'' 160 = Some (Jpeg_bytes (160, 256) [])"
proof -
  have m: "max_height 160 = Inr 256" using max_height_eq [of 160] by simp
  show ?thesis
    by (simp add: create_thumbnail_def thumbnail_try_def Image_open_def strip_file
        flat_image_def strip_target m scale_and_crop_def resize_def crop_def simple_libs_def
        convert_to_rgb_def Image_new_def split_last_def paste_def save_jpeg_def)
qed





lemma cover_compressed: "compress_image simple_libs shelf ''cover.gif'' 90 = Jpeg_bytes (640, 480) []"
  by (simp add: compress_image_def Image_open_def cover_file flat_image_def convert_to_rgb_def
      convert_def split_last_def paste_def Image_new_def simple_libs_def save_jpeg_def)

lemma page_compressed: "compress_image simple_libs shelf ''page.png'' 90 = Jpeg_bytes (7, 10) []"
  by (simp add: compress_image_def Image_open_def page_file flat_image_def convert_to_rgb_def
      simple_libs_def save_jpeg_def)

lemma scan_compressed:
  "compress_image simple_libs shelf ''scan.jpg'' 90 = Jpeg_bytes (1000, 1600) []"
  by (simp add: compress_image_def Image_open_def scan_file flat_image_def convert_to_rgb_def
      convert_def simple_libs_def save_jpeg_def)

lemma missing_compressed:
  "compress_image simple_libs shelf ''zzz'' 90 = Empty_bytes"
  "compress_image simple_libs shelf ''yyy'' 90 = Empty_bytes"
  by (simp_all add: compress_image_def Image_open_def shelf_def)

lemma out_writable: "writable shelf ''out.pdf''"
  by (simp add: shelf_def)


lemma simple_pdf_accepts: "pdf_refuses simple_libs bs lf = None"
  by (simp add: simple_libs_def)


lemma three_paths_buffers:
  "[Jpeg_bytes (7, 10) [], Jpeg_bytes (1000, 1600) []]
     = filter (\<lambda>b. b \<noteq> Empty_bytes)
         (map (\<lambda>p. compress_image simple_libs shelf p 90) [''page.png'', ''zzz'', ''scan.jpg''])"
  by (simp add: page_compressed scan_compressed missing_compressed)

lemma tabloid_unknown: "''tabloid'' \<notin> {''original'', ''a4'', ''letter''}"
  by simp

lemma a4_width_points: "mm_to_pt 210 = 5236099468337991 / 8796093022208"
  by code_simp

lemma a4_width_by_constant:
  "binary64 (210 * binary64 (2834645669 / 1000000000)) = 1309024866949959 / 2199023255552"
  by code_simp




lemma banner_file: "images shelf ''banner.png'' = Some (flat_image ''RGB'' 2000 10)"
  by (simp add: shelf_def)

lemma banner_target: "target_height 160 2000 10 = Inr 0"
  by (rule target_height_eval) (simp_all, code_simp)

lemma banner_resize: "resize simple_libs (flat_image ''RGB'' 2000 10) (160, 0) = Inl ValueError"
  by (simp add: resize_def simple_libs_def)

lemma banner_thumbnail: "create_thumbnail simple_libs shelf ''banner.png'' 160 = None"
proof -
  have m: "max_height 160 = Inr 256" using max_height_eq [of 160] by simp
  have sz: "im_size (flat_image ''RGB'' 2000 10) = (2000, 10)" by (simp add: flat_image_def)
  show ?thesis
    by (simp add: create_thumbnail_def thumbnail_try_def Image_open_def banner_file sz
        banner_target m scale_and_crop_def banner_resize)
qed

lemma tall_file: "images shelf ''tall.png'' = Some (flat_image ''RGB'' 1 70000)"
  by (simp add: shelf_def)

lemma tall_save: "save_jpeg simple_libs (flat_image ''RGB'' 1 70000) 90 = Inl IOError"
  by (simp add: save_jpeg_def simple_libs_def flat_image_def)

lemma tall_compressed: "compress_image simple_libs shelf ''tall.png'' 90 = Empty_bytes"
proof -
  have c: "convert_to_rgb simple_libs (flat_image ''RGB'' 1 70000) = Inr (flat_image ''RGB'' 1 70000)"
    by (simp add: convert_to_rgb_def flat_image_def)
  show ?thesis by (simp add: compress_image_def Image_open_def tall_file c tall_save)
qed

lemma a4_height_points: "mm_to_pt 297 = 1851335169162361 / 2199023255552"
  by code_simp

lemma margin_10_points: "mm_to_pt 10 = 7978818237467415 / 281474976710656"
  by code_simp

lemma one_page_buffers:
  "[Jpeg_bytes (7, 10) []]
     = filter (\<lambda>b. b \<noteq> Empty_bytes)
         (map (\<lambda>p. compress_image simple_libs shelf p 90) [''page.png''])"
  by (simp add: page_compressed)


section \<open>Thumbnails\<close>

text \<open>
  Claim C1, as amended.  For a source that decodes and whose aspect ratio \<open>origH / origW\<close> is at
  most 1.6, the thumbnail is the converted and encoded result of the resize alone (no crop),
  and its height is \<open>int(origH * (W / origW))\<close>: the double-precision product truncated toward
  zero, not rounded.  The truncated height exceeds the exact quotient \<open>origH * W / origW\<close> by no
  more than the rounding error \<open>1 / 2 ^ 19\<close> and stays within one below it.  Sizes are sizes of
  the imaging library (from 1, below \<open>2 ^ 31\<close>).
\<close>

theorem thumbnail_height_truncated:
  assumes "images w path = Some img" and "im_size img = (ow, oh)"
    and "1 \<le> ow" "ow < 2 ^ 31" "1 \<le> oh" "oh < 2 ^ 31" "1 \<le> W" "W < 2 ^ 31"
    and "rat_of_int oh / of_int ow \<le> 16 / 10"
    and "create_thumbnail L w path W = Some b"
  defines "th \<equiv> \<lfloor>binary64 (rat_of_int oh * binary64 (rat_of_int W / of_int ow))\<rfloor>"
  shows "decoded_size b = Some (W, th)
    \<and> (\<exists>r rgb. resize L img (W, th) = Inr r \<and> convert_to_rgb L r = Inr rgb
          \<and> save_jpeg L rgb 90 = Inr b)
    \<and> rat_of_int oh * of_int W / of_int ow - 1 - 1 / 2 ^ 19 < of_int th
    \<and> of_int th \<le> rat_of_int oh * of_int W / of_int ow + 1 / 2 ^ 19"
proof -
  have ratio: "5 * oh \<le> 8 * ow" using assms(9) ratio_le_iff [OF assms(3)] by simp
  from assms(10,1) obtain t0 cap t rgb where
    t0: "target_height W (fst (im_size img)) (snd (im_size img)) = Inr t0"
    and c: "max_height W = Inr cap" and s: "scale_and_crop L img W t0 cap = Inr t"
    and n: "convert_to_rgb L t = Inr rgb" and j: "save_jpeg L rgb 90 = Inr b"
    by (rule create_thumbnail_SomeD)
  have W0: "0 \<le> W" using assms(7) by simp
  have cap: "cap = 8 * W div 5" using c max_height_eq [OF W0 assms(8)] by simp
  have "target_height W ow oh = Inr th"
    unfolding th_def using target_height_sizes(1) [OF assms(7,8,3,4,5,6)] .
  then have t0th: "t0 = th" using t0 assms(2) by simp
  from target_height_le_cap [OF assms(7,8,3,4,5,6) ratio]
  have "th \<le> cap" using \<open>target_height W ow oh = Inr th\<close> cap by auto
  then have r: "resize L img (W, th) = Inr t"
    using s t0th scale_and_crop_no_crop [of th cap L img W] by simp
  have "im_size t = (W, th)" using r by (auto simp: resize_def split: sum.splits)
  then have "decoded_size b = Some (W, th)"
    using convert_to_rgb_size [OF n] save_jpeg_size [OF j] by simp
  moreover note target_height_near_quotient [OF assms(7,8,3,4,5,6) ratio, folded th_def]
  ultimately show ?thesis using r n j by blast
qed

text \<open>
  Claim C1 as stated fails: a 7 by 10 source (ratio below 1.6) at width 300 gets the height
  428, whereas rounding the scaled height 428.57 gives 429, in exact and in double arithmetic
  alike.
\<close>

theorem thumbnail_height_rounded_counterexample:
  "images shelf ''page.png'' = Some (flat_image ''RGB'' 7 10)
   \<and> im_size (flat_image ''RGB'' 7 10) = (7, 10)
   \<and> rat_of_int 10 / of_int 7 \<le> 16 / 10
   \<and> create_thumbnail simple_libs shelf ''page.png'' 300 = Some (Jpeg_bytes (300, 428) [])
   \<and> decoded_size (Jpeg_bytes (300, 428) []) = Some (300, 428)
   \<and> round (rat_of_int 10 * (of_int 300 / of_int 7)) = 429
   \<and> round_half_even (binary64 (rat_of_int 10 * binary64 (of_int 300 / of_int 7))) = 429"
proof -
  have "round (rat_of_int 10 * (of_int 300 / of_int 7)) = 429" by code_simp
  moreover have "round_half_even (binary64 (rat_of_int 10 * binary64 (of_int 300 / of_int 7))) = 429"
    by code_simp
  ultimately show ?thesis using page_file page_thumbnail by (simp add: flat_image_def)
qed

theorem thumbnail_height_truncated_witness:
  "images shelf ''page.png'' = Some (flat_image ''RGB'' 7 10)
   \<and> im_size (flat_image ''RGB'' 7 10) = (7, 10)
   \<and> (1::int) \<le> 7 \<and> (7::int) < 2 ^ 31 \<and> (1::int) \<le> 10 \<and> (10::int) < 2 ^ 31
   \<and> (1::int) \<le> 300 \<and> (300::int) < 2 ^ 31
   \<and> rat_of_int 10 / of_int 7 \<le> 16 / 10
   \<and> create_thumbnail simple_libs shelf ''page.png'' 300 = Some (Jpeg_bytes (300, 428) [])
   \<and> decoded_size (Jpeg_bytes (300, 428) [])
       = Some (300, \<lfloor>binary64 (rat_of_int 10 * binary64 (rat_of_int 300 / of_int 7))\<rfloor>)"
proof -
  have sz: "im_size (flat_image ''RGB'' 7 10) = (7, 10)" by (simp add: flat_image_def)
  have r: "rat_of_int 10 / of_int 7 \<le> 16 / 10" by simp
  from thumbnail_height_truncated [OF page_file sz _ _ _ _ _ _ r page_thumbnail]
  have "decoded_size (Jpeg_bytes (300, 428) [])
       = Some (300, \<lfloor>binary64 (rat_of_int 10 * binary64 (rat_of_int 300 / of_int 7))\<rfloor>)"
    by simp
  then show ?thesis using page_file sz r page_thumbnail by simp
qed

text \<open>
  Claim C2, as amended.  For every source image that decodes, whatever its aspect ratio, the
  buffer that \<open>create_thumbnail\<close> returns for the requested width \<open>W\<close>, when it returns one,
  declares the width \<open>W\<close> and a height of at most \<open>floor (W * 1.6)\<close>.  The requested width is
  a non-negative size of the imaging library (below \<open>2 ^ 31\<close>).
\<close>

theorem thumbnail_width_and_height_cap:
  assumes "images w path = Some img"
    and "create_thumbnail L w path W = Some b"
    and "0 \<le> W" and "W < 2 ^ 31"
  shows "\<exists>h. decoded_size b = Some (W, h) \<and> h \<le> \<lfloor>rat_of_int W * 16 / 10\<rfloor>"
proof -
  from assms(2,1) obtain th cap t rgb where
    c: "max_height W = Inr cap" and s: "scale_and_crop L img W th cap = Inr t"
    and n: "convert_to_rgb L t = Inr rgb" and j: "save_jpeg L rgb 90 = Inr b"
    by (rule create_thumbnail_SomeD)
  have "cap = 8 * W div 5" using c max_height_eq [OF assms(3,4)] by simp
  then have cap: "cap = \<lfloor>rat_of_int W * 16 / 10\<rfloor>" by (simp only: floor_cap)
  have "im_size rgb = (W, min th cap)"
    using convert_to_rgb_size [OF n] scale_and_crop_size [OF s] by simp
  then have "decoded_size b = Some (W, min th cap)" using save_jpeg_size [OF j] by simp
  then show ?thesis using cap by auto
qed

text \<open>
  Claim C2 as stated fails: a source that decodes need not get a thumbnail.  A 2000 by 10
  source at width 160 has the scaled height \<open>int(10 * (160 / 2000)) = 0\<close>, below the cap 256, so
  it is resized to 160 by 0; the resize raises and \<open>create_thumbnail\<close> returns \<open>None\<close>.
\<close>

theorem thumbnail_of_wide_source_counterexample:
  "images shelf ''banner.png'' = Some (flat_image ''RGB'' 2000 10)
   \<and> im_size (flat_image ''RGB'' 2000 10) = (2000, 10)
   \<and> target_height 160 2000 10 = Inr 0
   \<and> resize simple_libs (flat_image ''RGB'' 2000 10) (160, 0) = Inl ValueError
   \<and> create_thumbnail simple_libs shelf ''banner.png'' 160 = None"
  using banner_file banner_target banner_resize banner_thumbnail by (simp add: flat_image_def)

theorem thumbnail_width_and_height_cap_witness:
  "images shelf ''strip.png'' = Some (flat_image ''RGBA'' 800 20000)
   \<and> create_thumbnail simple_libs shelf ''strip.png'' 160 = Some (Jpeg_bytes (160, 256) [])
   \<and> (0::int) \<le> 160 \<and> (160::int) < 2 ^ 31
   \<and> (\<exists>h. decoded_size (Jpeg_bytes (160, 256) []) = Some (160, h)
          \<and> h \<le> \<lfloor>rat_of_int 160 * 16 / 10\<rfloor>)"
  using thumbnail_width_and_height_cap [OF strip_file strip_thumbnail] strip_file strip_thumbnail
  by simp




section \<open>Assembling the document\<close>

text \<open>
  Claim C4.  When \<open>K \<ge> 1\<close> of the \<open>N\<close> input paths compress to a non-empty buffer (and img2pdf
  accepts the buffers and the output path can be written), \<open>generate_pdf\<close> returns success and
  the file written holds exactly \<open>K\<close> pages: the surviving buffers, one page each, in the
  order of the input paths.  The paths whose compression fails are left out and the job goes
  on.
\<close>

theorem generate_pdf_pages_in_order:
  assumes "bufs = filter (\<lambda>b. b \<noteq> Empty_bytes)
                    (map (\<lambda>p. compress_image L w p quality) image_paths)"
    and "1 \<le> length bufs"
    and "layout_fun page_size margin_mm = Inr lf"
    and "pdf_refuses L bufs lf = None"
    and "writable w output_path"
  shows "fst (generate_pdf L g image_paths output_path page_size quality margin_mm w)
    \<and> (\<exists>pdf. written (snd (generate_pdf L g image_paths output_path page_size quality
                  margin_mm w)) output_path = Some pdf
          \<and> map page_image pdf = bufs \<and> length pdf = length bufs)"
proof -
  have ne: "image_paths \<noteq> []" using assms(1,2) by auto
  have b: "bufs \<noteq> []" using assms(2) by auto
  show ?thesis
    using b assms(3,4,5)
    by (simp add: generate_pdf_eq [OF ne] assms(1) [symmetric] comp_def)
qed

theorem generate_pdf_pages_in_order_witness:
  "[Jpeg_bytes (7, 10) [], Jpeg_bytes (1000, 1600) []]
     = filter (\<lambda>b. b \<noteq> Empty_bytes)
         (map (\<lambda>p. compress_image simple_libs shelf p 90) [''page.png'', ''zzz'', ''scan.jpg''])
   \<and> 1 \<le> length [Jpeg_bytes (7, 10) [], Jpeg_bytes (1000, 1600) []]
   \<and> layout_fun ''original'' 0 = Inr (Layout None None None)
   \<and> pdf_refuses simple_libs [Jpeg_bytes (7, 10) [], Jpeg_bytes (1000, 1600) []]
        (Layout None None None) = None
   \<and> writable shelf ''out.pdf''
   \<and> fst (generate_pdf simple_libs observed [''page.png'', ''zzz'', ''scan.jpg''] ''out.pdf''
            ''original'' 90 0 shelf)
   \<and> (\<exists>pdf. written (snd (generate_pdf simple_libs observed [''page.png'', ''zzz'', ''scan.jpg'']
                  ''out.pdf'' ''original'' 90 0 shelf)) ''out.pdf'' = Some pdf
          \<and> map page_image pdf = [Jpeg_bytes (7, 10) [], Jpeg_bytes (1000, 1600) []]
          \<and> length pdf = length [Jpeg_bytes (7, 10) [], Jpeg_bytes (1000, 1600) []])"
proof -
  have k: "1 \<le> length [Jpeg_bytes (7, 10) [], Jpeg_bytes (1000, 1600) []]" by simp
  note t = generate_pdf_pages_in_order [where g = observed and margin_mm = 0,
      OF three_paths_buffers k layout_original simple_pdf_accepts out_writable]
  show ?thesis
    using t three_paths_buffers k layout_original [of 0] simple_pdf_accepts out_writable
    by blast
qed

text \<open>
  Claim C5.  When every compression fails, so that no buffer survives, and in particular when
  the path list is empty, \<open>generate_pdf\<close> returns failure and writes no file; on the empty list
  it leaves the world as it was.
\<close>

theorem generate_pdf_fails_without_pages:
  assumes "\<forall>p \<in> set image_paths. compress_image L w p quality = Empty_bytes"
  shows "\<not> fst (generate_pdf L g image_paths output_path page_size quality margin_mm w)
    \<and> written (snd (generate_pdf L g image_paths output_path page_size quality margin_mm w))
        = written w
    \<and> generate_pdf L g [] output_path page_size quality margin_mm w = (False, w)"
proof (cases "image_paths = []")
  case True
  then show ?thesis by (simp add: generate_pdf_def)
next
  case False
  have "filter (\<lambda>b. b \<noteq> Empty_bytes) (map (\<lambda>p. compress_image L w p quality) image_paths) = []"
    using assms by (simp add: filter_empty_conv)
  then have "\<not> fst (generate_pdf L g image_paths output_path page_size quality margin_mm w)
    \<and> written (snd (generate_pdf L g image_paths output_path page_size quality margin_mm w))
        = written w"
    by (simp add: generate_pdf_eq [OF False])
  moreover have "generate_pdf L g [] output_path page_size quality margin_mm w = (False, w)"
    by (simp add: generate_pdf_def)
  ultimately show ?thesis by simp
qed

theorem generate_pdf_fails_without_pages_witness:
  "compress_image simple_libs shelf ''zzz'' 90 = Empty_bytes
   \<and> compress_image simple_libs shelf ''yyy'' 90 = Empty_bytes
   \<and> \<not> fst (generate_pdf simple_libs observed [''zzz'', ''yyy''] ''out.pdf'' ''a4'' 90 0 shelf)
   \<and> written (snd (generate_pdf simple_libs observed [''zzz'', ''yyy''] ''out.pdf'' ''a4'' 90 0
                 shelf)) = written shelf
   \<and> generate_pdf simple_libs observed [] ''out.pdf'' ''a4'' 90 0 shelf = (False, shelf)"
proof -
  have h: "\<forall>p \<in> set [''zzz'', ''yyy'']. compress_image simple_libs shelf p 90 = Empty_bytes"
    by (simp add: missing_compressed)
  from generate_pdf_fails_without_pages [OF h, of observed "''out.pdf''" "''a4''" 0]
  show ?thesis using missing_compressed by blast
qed


section \<open>Colour modes\<close>



text \<open>
  Claim C9, as amended.  For a source that decodes, the buffer \<open>compress_image\<close> returns,
  when it is not the empty buffer of a failure, decodes to the pixel size of the source: the
  function converts the colour mode and encodes, and resizes nowhere.
\<close>

theorem compress_keeps_dimensions:
  assumes "images w path = Some img" and "compress_image L w path q \<noteq> Empty_bytes"
  shows "decoded_size (compress_image L w path q) = Some (im_size img)
    \<and> (\<exists>rgb. convert_to_rgb L img = Inr rgb \<and> im_size rgb = im_size img
          \<and> save_jpeg L rgb q = Inr (compress_image L w path q))"
proof -
  note c = compress_image_cases [OF assms(1), of L q]
  from assms(2) c obtain rgb b where n: "convert_to_rgb L img = Inr rgb"
    and j: "save_jpeg L rgb q = Inr b" and b: "compress_image L w path q = b"
    by (auto split: sum.splits)
  have s: "im_size rgb = im_size img" using n by (rule convert_to_rgb_size)
  have "decoded_size b = Some (im_size img)" using save_jpeg_size [OF j] s by simp
  then show ?thesis using n j b s by simp
qed

text \<open>
  Claim C9 as stated fails: a source that decodes need not get a buffer that decodes.  A 1 by
  70000 source is taller than a JPEG frame can be; the encoder raises, \<open>compress_image\<close>
  returns the empty buffer, and the empty buffer has no dimensions.
\<close>

theorem compress_of_tall_source_counterexample:
  "images shelf ''tall.png'' = Some (flat_image ''RGB'' 1 70000)
   \<and> im_size (flat_image ''RGB'' 1 70000) = (1, 70000)
   \<and> save_jpeg simple_libs (flat_image ''RGB'' 1 70000) 90 = Inl IOError
   \<and> compress_image simple_libs shelf ''tall.png'' 90 = Empty_bytes
   \<and> decoded_size (compress_image simple_libs shelf ''tall.png'' 90) = None"
  using tall_file tall_save tall_compressed by (simp add: flat_image_def)

theorem compress_keeps_dimensions_witness:
  "images shelf ''cover.gif'' = Some (flat_image ''P'' 640 480)
   \<and> compress_image simple_libs shelf ''cover.gif'' 90 \<noteq> Empty_bytes
   \<and> decoded_size (compress_image simple_libs shelf ''cover.gif'' 90) = Some (640, 480)"
proof -
  have ne: "compress_image simple_libs shelf ''cover.gif'' 90 \<noteq> Empty_bytes"
    by (simp add: cover_compressed)
  from compress_keeps_dimensions [OF cover_file ne]
  have "decoded_size (compress_image simple_libs shelf ''cover.gif'' 90) = Some (640, 480)"
    by (simp add: flat_image_def)
  then show ?thesis using cover_file ne by simp
qed


section \<open>Progress events\<close>





section \<open>Page sizes\<close>

text \<open>
  Claim C8, as amended.  Under the policies \<open>a4\<close> and \<open>letter\<close>, a run that has a page to
  write (img2pdf accepts the buffers and the output path can be written) succeeds, and every
  page of the document is laid out with the fixed page size 210 by 297 mm, respectively 215.9
  by 279.4 mm, each length converted to points by \<open>img2pdf.mm_to_pt\<close>, that is
  \<open>(72.0 * mm) / 25.4\<close>, and not by the constant 2.834645669.  On such a page the image is
  scaled to fit inside the page inset by the margin, converted the same way, on all four
  sides, with its aspect ratio preserved: the placed rectangle keeps the proportion of the
  pixel size, lies within the inset page, and reaches the inset page in width or in height.
  The margin is not negative and can be inset in the page.
\<close>

theorem fixed_page_layout:
  fixes margin_mm :: rat
  assumes "page_size = ''a4'' \<and> dims = (210, 297)
         \<or> page_size = ''letter'' \<and> dims = (binary64 (2159 / 10), binary64 (2794 / 10))"
    and "pw = mm_to_pt (fst dims)" and "ph = mm_to_pt (snd dims)" and "m = mm_to_pt margin_mm"
    and "lf = Layout (Some (pw, ph)) (Some into) (Some (m, m, m, m))"
    and "bufs = filter (\<lambda>b. b \<noteq> Empty_bytes)
                    (map (\<lambda>p. compress_image L w p quality) image_paths)"
    and "1 \<le> length bufs"
    and "pdf_refuses L bufs lf = None"
    and "writable w output_path"
    and "0 \<le> margin_mm" and "2 * m \<le> pw" and "2 * m \<le> ph"
  shows "layout_fun page_size margin_mm = Inr lf
    \<and> fst (generate_pdf L g image_paths output_path page_size quality margin_mm w)
    \<and> (\<exists>pdf. written (snd (generate_pdf L g image_paths output_path page_size quality
                  margin_mm w)) output_path = Some pdf
          \<and> map page_image pdf = bufs
          \<and> (\<forall>pg \<in> set pdf. page_layout pg = lf
                \<and> (\<exists>iw ih x y wd ht.
                      decoded_size (page_image pg) = Some (iw, ih)
                      \<and> placed_image pg = Some (x, y, wd, ht)
                      \<and> wd * of_int ih = ht * of_int iw
                      \<and> (1 \<le> iw \<and> 1 \<le> ih \<longrightarrow>
                            m \<le> x \<and> x + wd \<le> pw - m \<and> m \<le> y \<and> y + ht \<le> ph - m
                            \<and> (wd = pw - 2 * m \<or> ht = ph - 2 * m)))))"
proof -
  have lay: "layout_fun page_size margin_mm = Inr lf"
    using assms(1) by (auto simp add: assms(2-5) layout_a4 layout_letter)
  note run = generate_pdf_written [where g = g, OF assms(6) assms(7) lay assms(8) assms(9)]
  define pdf where "pdf = map (\<lambda>b. \<lparr>page_image = b, page_layout = lf\<rparr>) bufs"
  have m0: "0 \<le> m" using assms(10) by (simp add: assms(4) mm_to_pt_nonneg)
  have imgs: "map page_image pdf = bufs" by (simp add: pdf_def comp_def)
  have pages: "page_layout pg = lf
        \<and> (\<exists>iw ih x y wd ht.
              decoded_size (page_image pg) = Some (iw, ih)
              \<and> placed_image pg = Some (x, y, wd, ht)
              \<and> wd * of_int ih = ht * of_int iw
              \<and> (1 \<le> iw \<and> 1 \<le> ih \<longrightarrow>
                    m \<le> x \<and> x + wd \<le> pw - m \<and> m \<le> y \<and> y + ht \<le> ph - m
                    \<and> (wd = pw - 2 * m \<or> ht = ph - 2 * m)))"
    if "pg \<in> set pdf" for pg
  proof -
    from that obtain b where b: "b \<in> set bufs" and pg: "pg = \<lparr>page_image = b, page_layout = lf\<rparr>"
      by (auto simp add: pdf_def)
    from b have "b \<noteq> Empty_bytes" by (simp add: assms(6))
    then obtain iw ih d where jb: "b = Jpeg_bytes (iw, ih) d" by (cases b) auto
    obtain x y wd ht where fit: "fit_into (pw, ph) (m, m, m, m) (iw, ih) = (x, y, wd, ht)"
      by (cases "fit_into (pw, ph) (m, m, m, m) (iw, ih)") auto
    have ds: "decoded_size (page_image pg) = Some (iw, ih)" by (simp add: pg jb)
    have pl: "placed_image pg = Some (x, y, wd, ht)"
      by (simp add: placed_image_def pg jb assms(5) fit)
    have asp: "wd * of_int ih = ht * of_int iw" by (rule fit_into_aspect [OF fit])
    have ins: "m \<le> x \<and> x + wd \<le> pw - m \<and> m \<le> y \<and> y + ht \<le> ph - m
        \<and> (wd = pw - 2 * m \<or> ht = ph - 2 * m)" if "1 \<le> iw" "1 \<le> ih"
      by (rule fit_into_inset [OF fit that m0 assms(11) assms(12)])
    have "page_layout pg = lf" by (simp add: pg)
    with ds pl asp ins show ?thesis by blast
  qed
  from run(2) imgs pages have
    "\<exists>pdf. written (snd (generate_pdf L g image_paths output_path page_size quality
                  margin_mm w)) output_path = Some pdf
          \<and> map page_image pdf = bufs
          \<and> (\<forall>pg \<in> set pdf. page_layout pg = lf
                \<and> (\<exists>iw ih x y wd ht.
                      decoded_size (page_image pg) = Some (iw, ih)
                      \<and> placed_image pg = Some (x, y, wd, ht)
                      \<and> wd * of_int ih = ht * of_int iw
                      \<and> (1 \<le> iw \<and> 1 \<le> ih \<longrightarrow>
                            m \<le> x \<and> x + wd \<le> pw - m \<and> m \<le> y \<and> y + ht \<le> ph - m
                            \<and> (wd = pw - 2 * m \<or> ht = ph - 2 * m))))"
    unfolding pdf_def [symmetric] by blast
  with lay run(1) show ?thesis by blast
qed

text \<open>
  Claim C8 as stated fails: the A4 page width handed to img2pdf is \<open>mm_to_pt 210\<close>,
  595.2755905511812 points, not the product of 210 with 2.834645669, 595.27559049 points.
\<close>

theorem page_width_by_constant_counterexample:
  "layout_fun ''a4'' 0 = Inr (Layout (Some (mm_to_pt 210, mm_to_pt 297)) (Some into)
      (Some (mm_to_pt 0, mm_to_pt 0, mm_to_pt 0, mm_to_pt 0)))
   \<and> mm_to_pt 210 = 5236099468337991 / 8796093022208
   \<and> binary64 (210 * binary64 (2834645669 / 1000000000)) = 1309024866949959 / 2199023255552
   \<and> mm_to_pt 210 \<noteq> binary64 (210 * binary64 (2834645669 / 1000000000))"
  by (simp add: layout_a4 a4_width_points a4_width_by_constant)

theorem fixed_page_layout_witness:
  "[Jpeg_bytes (7, 10) []]
     = filter (\<lambda>b. b \<noteq> Empty_bytes)
         (map (\<lambda>p. compress_image simple_libs shelf p 90) [''page.png''])
   \<and> 1 \<le> length [Jpeg_bytes (7, 10) []]
   \<and> pdf_refuses simple_libs [Jpeg_bytes (7, 10) []]
        (Layout (Some (mm_to_pt 210, mm_to_pt 297)) (Some into)
           (Some (mm_to_pt 10, mm_to_pt 10, mm_to_pt 10, mm_to_pt 10))) = None
   \<and> writable shelf ''out.pdf''
   \<and> 2 * mm_to_pt 10 \<le> mm_to_pt 210
   \<and> 2 * mm_to_pt 10 \<le> mm_to_pt 297
   \<and> layout_fun ''a4'' 10 = Inr (Layout (Some (mm_to_pt 210, mm_to_pt 297)) (Some into)
           (Some (mm_to_pt 10, mm_to_pt 10, mm_to_pt 10, mm_to_pt 10)))
   \<and> fst (generate_pdf simple_libs observed [''page.png''] ''out.pdf'' ''a4'' 90 10 shelf)
   \<and> written (snd (generate_pdf simple_libs observed [''page.png''] ''out.pdf'' ''a4'' 90 10 shelf))
        ''out.pdf''
      = Some [\<lparr>page_image = Jpeg_bytes (7, 10) [],
               page_layout = Layout (Some (mm_to_pt 210, mm_to_pt 297)) (Some into)
                 (Some (mm_to_pt 10, mm_to_pt 10, mm_to_pt 10, mm_to_pt 10))\<rparr>]
   \<and> (\<exists>x y wd ht.
        placed_image \<lparr>page_image = Jpeg_bytes (7, 10) [],
               page_layout = Layout (Some (mm_to_pt 210, mm_to_pt 297)) (Some into)
                 (Some (mm_to_pt 10, mm_to_pt 10, mm_to_pt 10, mm_to_pt 10))\<rparr>
          = Some (x, y, wd, ht)
        \<and> wd * 10 = ht * 7
        \<and> mm_to_pt 10 \<le> x \<and> x + wd \<le> mm_to_pt 210 - mm_to_pt 10
        \<and> mm_to_pt 10 \<le> y \<and> y + ht \<le> mm_to_pt 297 - mm_to_pt 10
        \<and> (wd = mm_to_pt 210 - 2 * mm_to_pt 10 \<or> ht = mm_to_pt 297 - 2 * mm_to_pt 10))"
proof -
  let ?lf = "Layout (Some (mm_to_pt 210, mm_to_pt 297)) (Some into)
           (Some (mm_to_pt 10, mm_to_pt 10, mm_to_pt 10, mm_to_pt 10))"
  let ?pg = "\<lparr>page_image = Jpeg_bytes (7, 10) [], page_layout = ?lf\<rparr>"
  have p1: "''a4'' = ''a4'' \<and> (210::rat, 297::rat) = (210, 297)
      \<or> ''a4'' = ''letter'' \<and> (210::rat, 297::rat) = (binary64 (2159 / 10), binary64 (2794 / 10))"
    by simp
  have p2: "mm_to_pt 210 = mm_to_pt (fst (210::rat, 297::rat))" by simp
  have p3: "mm_to_pt 297 = mm_to_pt (snd (210::rat, 297::rat))" by simp
  have k: "1 \<le> length [Jpeg_bytes (7, 10) []]" by simp
  have m0: "(0::rat) \<le> 10" by simp
  have f1: "2 * mm_to_pt 10 \<le> mm_to_pt 210" by (simp add: margin_10_points a4_width_points)
  have f2: "2 * mm_to_pt 10 \<le> mm_to_pt 297" by (simp add: margin_10_points a4_height_points)
  note t = fixed_page_layout [where g = observed and lf = ?lf,
      OF p1 p2 p3 refl refl one_page_buffers k simple_pdf_accepts out_writable m0 f1 f2]
  note lay = t [THEN conjunct1]
  note ok = t [THEN conjunct2, THEN conjunct1]
  from t [THEN conjunct2, THEN conjunct2] obtain pdf where
    wr: "written (snd (generate_pdf simple_libs observed [''page.png''] ''out.pdf'' ''a4'' 90 10
            shelf)) ''out.pdf'' = Some pdf"
    and im: "map page_image pdf = [Jpeg_bytes (7, 10) []]"
    and pgs: "\<forall>pg \<in> set pdf. page_layout pg = ?lf
                \<and> (\<exists>iw ih x y wd ht.
                      decoded_size (page_image pg) = Some (iw, ih)
                      \<and> placed_image pg = Some (x, y, wd, ht)
                      \<and> wd * of_int ih = ht * of_int iw
                      \<and> (1 \<le> iw \<and> 1 \<le> ih \<longrightarrow>
                            mm_to_pt 10 \<le> x \<and> x + wd \<le> mm_to_pt 210 - mm_to_pt 10
                            \<and> mm_to_pt 10 \<le> y \<and> y + ht \<le> mm_to_pt 297 - mm_to_pt 10
                            \<and> (wd = mm_to_pt 210 - 2 * mm_to_pt 10
                                \<or> ht = mm_to_pt 297 - 2 * mm_to_pt 10)))"
    by (elim exE conjE) (rule that)
  have pdf: "pdf = [?pg]" by (rule single_page_document [OF im]) (simp add: pgs)
  from pgs pdf obtain iw ih x y wd ht where
    ds: "decoded_size (page_image ?pg) = Some (iw, ih)"
    and pl: "placed_image ?pg = Some (x, y, wd, ht)"
    and asp: "wd * of_int ih = ht * of_int iw"
    and ins: "1 \<le> iw \<and> 1 \<le> ih \<longrightarrow>
                mm_to_pt 10 \<le> x \<and> x + wd \<le> mm_to_pt 210 - mm_to_pt 10
                \<and> mm_to_pt 10 \<le> y \<and> y + ht \<le> mm_to_pt 297 - mm_to_pt 10
                \<and> (wd = mm_to_pt 210 - 2 * mm_to_pt 10 \<or> ht = mm_to_pt 297 - 2 * mm_to_pt 10)"
    by auto
  from ds have sz: "iw = 7" "ih = 10" by simp_all
  from asp have asp': "wd * 10 = ht * 7" by (simp add: sz)
  from ins have ins': "mm_to_pt 10 \<le> x \<and> x + wd \<le> mm_to_pt 210 - mm_to_pt 10
                \<and> mm_to_pt 10 \<le> y \<and> y + ht \<le> mm_to_pt 297 - mm_to_pt 10
                \<and> (wd = mm_to_pt 210 - 2 * mm_to_pt 10 \<or> ht = mm_to_pt 297 - 2 * mm_to_pt 10)"
    by (simp add: sz)
  have ex: "\<exists>x y wd ht. placed_image ?pg = Some (x, y, wd, ht)
        \<and> wd * 10 = ht * 7
        \<and> mm_to_pt 10 \<le> x \<and> x + wd \<le> mm_to_pt 210 - mm_to_pt 10
        \<and> mm_to_pt 10 \<le> y \<and> y + ht \<le> mm_to_pt 297 - mm_to_pt 10
        \<and> (wd = mm_to_pt 210 - 2 * mm_to_pt 10 \<or> ht = mm_to_pt 297 - 2 * mm_to_pt 10)"
    using pl asp' ins' by blast
  have wr': "written (snd (generate_pdf simple_libs observed [''page.png''] ''out.pdf'' ''a4'' 90 10
            shelf)) ''out.pdf'' = Some [?pg]"
    using wr pdf by simp
  have acc: "pdf_refuses simple_libs [Jpeg_bytes (7, 10) []] ?lf = None"
    by (rule simple_pdf_accepts)
  show ?thesis
    using one_page_buffers k acc out_writable f1 f2 lay ok wr' ex by blast
qed

text \<open>
  Claim C10.  A page-size string that is none of \<open>original\<close>, \<open>a4\<close> and \<open>letter\<close> raises
  nothing: the dictionary lookup falls back to 210 by 297 mm and the layout is that of \<open>a4\<close>.
  A run that has a page to write (img2pdf accepts the buffers and the output path can be
  written) succeeds, every page of the document written carries the A4 layout, and the result
  and the world left behind are those of the same call with \<open>a4\<close>.
\<close>

theorem unknown_policy_falls_back_to_a4:
  fixes margin_mm :: rat
  assumes "page_size \<notin> {''original'', ''a4'', ''letter''}"
    and "a4 = Layout (Some (mm_to_pt 210, mm_to_pt 297)) (Some into)
            (Some (mm_to_pt margin_mm, mm_to_pt margin_mm, mm_to_pt margin_mm, mm_to_pt margin_mm))"
    and "bufs = filter (\<lambda>b. b \<noteq> Empty_bytes)
                    (map (\<lambda>p. compress_image L w p quality) image_paths)"
    and "1 \<le> length bufs"
    and "pdf_refuses L bufs a4 = None"
    and "writable w output_path"
  shows "layout_fun page_size margin_mm = Inr a4
    \<and> layout_fun ''a4'' margin_mm = Inr a4
    \<and> fst (generate_pdf L g image_paths output_path page_size quality margin_mm w)
    \<and> (\<exists>pdf. written (snd (generate_pdf L g image_paths output_path page_size quality
                  margin_mm w)) output_path = Some pdf
          \<and> map page_image pdf = bufs
          \<and> (\<forall>pg \<in> set pdf. page_layout pg = a4))
    \<and> generate_pdf L g image_paths output_path page_size quality margin_mm w
      = generate_pdf L g image_paths output_path ''a4'' quality margin_mm w"
proof -
  have lay: "layout_fun page_size margin_mm = Inr a4"
    using layout_unknown [OF assms(1)] by (simp add: assms(2))
  have lay4: "layout_fun ''a4'' margin_mm = Inr a4" by (simp add: layout_a4 assms(2))
  note run = generate_pdf_written [where g = g, OF assms(3) assms(4) lay assms(5) assms(6)]
  define pdf where "pdf = map (\<lambda>b. \<lparr>page_image = b, page_layout = a4\<rparr>) bufs"
  have imgs: "map page_image pdf = bufs" by (simp add: pdf_def comp_def)
  have pages: "\<forall>pg \<in> set pdf. page_layout pg = a4" by (auto simp add: pdf_def)
  from run(2) imgs pages have
    "\<exists>pdf. written (snd (generate_pdf L g image_paths output_path page_size quality
                  margin_mm w)) output_path = Some pdf
          \<and> map page_image pdf = bufs
          \<and> (\<forall>pg \<in> set pdf. page_layout pg = a4)"
    unfolding pdf_def [symmetric] by blast
  moreover have "generate_pdf L g image_paths output_path page_size quality margin_mm w
      = generate_pdf L g image_paths output_path ''a4'' quality margin_mm w"
    by (rule generate_pdf_same_layout) (simp add: lay lay4)
  ultimately show ?thesis using lay lay4 run(1) by blast
qed

theorem unknown_policy_falls_back_to_a4_witness:
  "''tabloid'' \<notin> {''original'', ''a4'', ''letter''}
   \<and> [Jpeg_bytes (7, 10) []]
     = filter (\<lambda>b. b \<noteq> Empty_bytes)
         (map (\<lambda>p. compress_image simple_libs shelf p 90) [''page.png''])
   \<and> 1 \<le> length [Jpeg_bytes (7, 10) []]
   \<and> pdf_refuses simple_libs [Jpeg_bytes (7, 10) []]
        (Layout (Some (mm_to_pt 210, mm_to_pt 297)) (Some into)
           (Some (mm_to_pt 5, mm_to_pt 5, mm_to_pt 5, mm_to_pt 5))) = None
   \<and> writable shelf ''out.pdf''
   \<and> layout_fun ''tabloid'' 5 = Inr (Layout (Some (mm_to_pt 210, mm_to_pt 297)) (Some into)
           (Some (mm_to_pt 5, mm_to_pt 5, mm_to_pt 5, mm_to_pt 5)))
   \<and> fst (generate_pdf simple_libs observed [''page.png''] ''out.pdf'' ''tabloid'' 90 5 shelf)
   \<and> written (snd (generate_pdf simple_libs observed [''page.png''] ''out.pdf'' ''tabloid'' 90 5
        shelf)) ''out.pdf''
      = Some [\<lparr>page_image = Jpeg_bytes (7, 10) [],
               page_layout = Layout (Some (mm_to_pt 210, mm_to_pt 297)) (Some into)
                 (Some (mm_to_pt 5, mm_to_pt 5, mm_to_pt 5, mm_to_pt 5))\<rparr>]
   \<and> generate_pdf simple_libs observed [''page.png''] ''out.pdf'' ''tabloid'' 90 5 shelf
      = generate_pdf simple_libs observed [''page.png''] ''out.pdf'' ''a4'' 90 5 shelf"
proof -
  let ?lf = "Layout (Some (mm_to_pt 210, mm_to_pt 297)) (Some into)
           (Some (mm_to_pt 5, mm_to_pt 5, mm_to_pt 5, mm_to_pt 5))"
  let ?pg = "\<lparr>page_image = Jpeg_bytes (7, 10) [], page_layout = ?lf\<rparr>"
  have k: "1 \<le> length [Jpeg_bytes (7, 10) []]" by simp
  have acc: "pdf_refuses simple_libs [Jpeg_bytes (7, 10) []] ?lf = None"
    by (rule simple_pdf_accepts)
  note t = unknown_policy_falls_back_to_a4 [where g = observed and margin_mm = 5,
      OF tabloid_unknown refl one_page_buffers k acc out_writable]
  note lay = t [THEN conjunct1]
  note ok = t [THEN conjunct2, THEN conjunct2, THEN conjunct1]
  note same = t [THEN conjunct2, THEN conjunct2, THEN conjunct2, THEN conjunct2]
  from t [THEN conjunct2, THEN conjunct2, THEN conjunct2, THEN conjunct1] obtain pdf where
    wr: "written (snd (generate_pdf simple_libs observed [''page.png''] ''out.pdf'' ''tabloid'' 90 5
            shelf)) ''out.pdf'' = Some pdf"
    and im: "map page_image pdf = [Jpeg_bytes (7, 10) []]"
    and pgs: "\<forall>pg \<in> set pdf. page_layout pg = ?lf"
    by (elim exE conjE) (rule that)
  have pdf: "pdf = [?pg]" by (rule single_page_document [OF im pgs])
  have wr': "written (snd (generate_pdf simple_libs observed [''page.png''] ''out.pdf'' ''tabloid''
            90 5 shelf)) ''out.pdf'' = Some [?pg]"
    using wr pdf by simp
  show ?thesis
    using tabloid_unknown one_page_buffers k acc out_writable lay ok wr' same by blast
qed

end
